theory Spec2Isabelle
  imports Complex_Main
begin

section \<open>Floating-point values\<close>

text \<open>
  The kernel computes with C++ \<^verbatim>\<open>double\<close>, and with \<^verbatim>\<open>float\<close> for the voxels and the
  brightness. A value is a real number or one of the three IEEE 754 special values. Each
  operation computes the exact result and rounds it to the format, to nearest with ties
  to even, with gradual underflow and overflow to an infinity: binary64 for \<^verbatim>\<open>double\<close>,
  binary32 for \<^verbatim>\<open>float\<close>. Division by zero, operations on infinities and the propagation
  of NaN follow IEEE 754. The two zeros are not told apart: a zero result is \<open>+0\<close> and
  a zero divisor counts as \<open>+0\<close>.
\<close>

datatype double = Fin real | PInf | NInf | NaN

type_synonym float = double

subsection \<open>Rounding\<close>

text \<open>The integer nearest to \<open>q\<close>, the even one of the two when \<open>q\<close> lies half way.\<close>

definition round_even :: "real \<Rightarrow> int" where
  "round_even q =
     (if q - of_int \<lfloor>q\<rfloor> < 1 / 2 then \<lfloor>q\<rfloor>
      else if 1 / 2 < q - of_int \<lfloor>q\<rfloor> then \<lfloor>q\<rfloor> + 1
      else if even \<lfloor>q\<rfloor> then \<lfloor>q\<rfloor> else \<lfloor>q\<rfloor> + 1)"

text \<open>
  The binade of \<open>x\<close> is the integer \<open>e\<close> with \<open>2\<^sup>e \<le> |x| < 2 * 2\<^sup>e\<close>. In a format with a
  precision of \<open>p\<close> bits and least exponent \<open>emin\<close>, the numbers around \<open>x\<close> are the
  multiples of the quantum \<open>2\<^sup>k\<close>, where \<open>k = max e emin - (p - 1)\<close>, and \<open>x\<close> rounds to the
  nearest of them.
\<close>

definition binade :: "real \<Rightarrow> int" where
  "binade x = \<lfloor>log 2 \<bar>x\<bar>\<rfloor>"

definition quantum :: "nat \<Rightarrow> int \<Rightarrow> real \<Rightarrow> real" where
  "quantum p emin x = 2 powi (max (binade x) emin - (int p - 1))"

definition round_to :: "nat \<Rightarrow> int \<Rightarrow> real \<Rightarrow> real" where
  "round_to p emin x = of_int (round_even (x / quantum p emin x)) * quantum p emin x"

text \<open>A rounded value of magnitude \<open>2 * 2\<^sup>e\<close> or more, \<open>e\<close> the largest exponent, overflows.\<close>

definition rnd :: "nat \<Rightarrow> int \<Rightarrow> int \<Rightarrow> real \<Rightarrow> double" where
  "rnd p emin emax x =
     (let y = round_to p emin x in
      if 2 powi (emax + 1) \<le> \<bar>y\<bar> then (if 0 < y then PInf else NInf) else Fin y)"

definition rnd64 :: "real \<Rightarrow> double" where
  "rnd64 = rnd 53 (- 1022) 1023"

definition rnd32 :: "real \<Rightarrow> float" where
  "rnd32 = rnd 24 (- 126) 127"

text \<open>The numbers of a format: \<open>m * 2\<^sup>k\<close> with \<open>|m| < 2\<^sup>p\<close> and \<open>k\<close> not below the least quantum.\<close>

definition representable :: "nat \<Rightarrow> int \<Rightarrow> real \<Rightarrow> bool" where
  "representable p emin y \<longleftrightarrow>
     (\<exists>m k. y = of_int m * 2 powi k \<and> \<bar>m\<bar> < 2 ^ p \<and> emin - (int p - 1) \<le> k)"

definition is_double :: "real \<Rightarrow> bool" where
  "is_double y \<longleftrightarrow> representable 53 (- 1022) y \<and> \<bar>y\<bar> < 2 powi 1024"

definition is_float :: "real \<Rightarrow> bool" where
  "is_float y \<longleftrightarrow> representable 24 (- 126) y \<and> \<bar>y\<bar> < 2 powi 128"

subsection \<open>Operations\<close>

text \<open>Each operation takes the rounding of its format.\<close>

fun d_neg :: "double \<Rightarrow> double" where
  "d_neg (Fin a) = Fin (- a)"
| "d_neg PInf = NInf"
| "d_neg NInf = PInf"
| "d_neg NaN = NaN"

fun fp_add :: "(real \<Rightarrow> double) \<Rightarrow> double \<Rightarrow> double \<Rightarrow> double" where
  "fp_add r (Fin a) (Fin b) = r (a + b)"
| "fp_add r NaN _ = NaN"
| "fp_add r _ NaN = NaN"
| "fp_add r PInf NInf = NaN"
| "fp_add r NInf PInf = NaN"
| "fp_add r PInf _ = PInf"
| "fp_add r _ PInf = PInf"
| "fp_add r NInf _ = NInf"
| "fp_add r _ NInf = NInf"

definition d_add :: "double \<Rightarrow> double \<Rightarrow> double" where
  "d_add = fp_add rnd64"

text \<open>The addition of two \<^verbatim>\<open>float\<close> values, as in \<^verbatim>\<open>voxel_grid(ix, iy, iz) += brightness\<close>.\<close>

definition f_add :: "float \<Rightarrow> float \<Rightarrow> float" where
  "f_add = fp_add rnd32"

definition d_sub :: "double \<Rightarrow> double \<Rightarrow> double" where
  "d_sub a b = d_add a (d_neg b)"

fun d_mul :: "double \<Rightarrow> double \<Rightarrow> double" where
  "d_mul (Fin a) (Fin b) = rnd64 (a * b)"
| "d_mul NaN _ = NaN"
| "d_mul _ NaN = NaN"
| "d_mul PInf (Fin b) = (if b = 0 then NaN else if 0 < b then PInf else NInf)"
| "d_mul NInf (Fin b) = (if b = 0 then NaN else if 0 < b then NInf else PInf)"
| "d_mul (Fin a) PInf = (if a = 0 then NaN else if 0 < a then PInf else NInf)"
| "d_mul (Fin a) NInf = (if a = 0 then NaN else if 0 < a then NInf else PInf)"
| "d_mul PInf PInf = PInf"
| "d_mul PInf NInf = NInf"
| "d_mul NInf PInf = NInf"
| "d_mul NInf NInf = PInf"

fun d_div :: "double \<Rightarrow> double \<Rightarrow> double" where
  "d_div (Fin a) (Fin b) =
     (if b \<noteq> 0 then rnd64 (a / b)
      else if a = 0 then NaN else if 0 < a then PInf else NInf)"
| "d_div NaN _ = NaN"
| "d_div _ NaN = NaN"
| "d_div (Fin a) PInf = Fin 0"
| "d_div (Fin a) NInf = Fin 0"
| "d_div PInf (Fin b) = (if 0 \<le> b then PInf else NInf)"
| "d_div NInf (Fin b) = (if 0 \<le> b then NInf else PInf)"
| "d_div PInf PInf = NaN"
| "d_div PInf NInf = NaN"
| "d_div NInf PInf = NaN"
| "d_div NInf NInf = NaN"

text \<open>\<^verbatim>\<open>std::sqrt\<close> is correctly rounded; NaN below zero.\<close>

fun d_sqrt :: "double \<Rightarrow> double" where
  "d_sqrt (Fin a) = (if a < 0 then NaN else rnd64 (sqrt a))"
| "d_sqrt PInf = PInf"
| "d_sqrt NInf = NaN"
| "d_sqrt NaN = NaN"

text \<open>
  \<^verbatim>\<open>std::tan\<close>: NaN at an infinity; elsewhere the tangent, rounded. A library's tangent
  may be one unit in the last place off the correctly rounded one; what is proved below
  uses only the sign and the rough size of a tangent. The clause for a pole is there to
  make the function total: no \<^verbatim>\<open>double\<close> is a pole of the tangent.
\<close>

fun d_tan :: "double \<Rightarrow> double" where
  "d_tan (Fin a) = (if cos a = 0 then PInf else rnd64 (tan a))"
| "d_tan PInf = NaN"
| "d_tan NInf = NaN"
| "d_tan NaN = NaN"

text \<open>The comparison \<^verbatim>\<open>a > b\<close>: false as soon as one side is NaN.\<close>

fun d_gt :: "double \<Rightarrow> double \<Rightarrow> bool" where
  "d_gt (Fin a) (Fin b) = (b < a)"
| "d_gt NaN _ = False"
| "d_gt _ NaN = False"
| "d_gt _ PInf = False"
| "d_gt PInf _ = True"
| "d_gt NInf _ = False"
| "d_gt (Fin a) NInf = True"

text \<open>The comparison \<^verbatim>\<open>a >= b\<close>; the kernel has no such test, properties of it do.\<close>

fun d_ge :: "double \<Rightarrow> double \<Rightarrow> bool" where
  "d_ge (Fin a) (Fin b) = (b \<le> a)"
| "d_ge NaN _ = False"
| "d_ge _ NaN = False"
| "d_ge PInf _ = True"
| "d_ge _ NInf = True"
| "d_ge _ PInf = False"
| "d_ge NInf _ = False"

text \<open>
  \<^verbatim>\<open>static_cast<double>(n)\<close> of an \<^verbatim>\<open>int\<close> is exact: an \<^verbatim>\<open>int\<close> has 32 bits and a
  \<^verbatim>\<open>double\<close> holds every integer of 53.
\<close>

definition d_of_int :: "int \<Rightarrow> double" where
  "d_of_int n = Fin (of_int n)"

definition INT_MIN :: int where
  "INT_MIN = - 2147483648"

definition INT_MAX :: int where
  "INT_MAX = 2147483647"

definition trunc :: "real \<Rightarrow> int" where
  "trunc r = (if 0 \<le> r then \<lfloor>r\<rfloor> else \<lceil>r\<rceil>)"

text \<open>
  \<^verbatim>\<open>static_cast<int>(d)\<close> truncates toward zero. When the truncated value is no
  \<^verbatim>\<open>int\<close> (NaN, an infinity, a magnitude beyond 32 bits) C++ leaves the conversion
  undefined; processors return some \<^verbatim>\<open>int\<close> there (\<open>INT_MIN\<close> on x86-64, a saturated
  value and 0 for NaN on AArch64). That result is the parameter \<open>undef\<close> of the model, so
  a theorem for every \<open>undef\<close> holds whatever the platform returns.
\<close>

fun static_cast_int :: "(double \<Rightarrow> int) \<Rightarrow> double \<Rightarrow> int" where
  "static_cast_int undef (Fin r) =
     (if INT_MIN \<le> trunc r \<and> trunc r \<le> INT_MAX then trunc r else undef (Fin r))"
| "static_cast_int undef PInf = undef PInf"
| "static_cast_int undef NInf = undef NInf"
| "static_cast_int undef NaN = undef NaN"

text \<open>
  One such platform, used where a call is evaluated: x86-64's \<^verbatim>\<open>cvttsd2si\<close> returns
  \<open>INT_MIN\<close> for every value it cannot convert.
\<close>

definition x86_undef :: "double \<Rightarrow> int" where
  "x86_undef d = INT_MIN"

declare static_cast_int.simps [simp del]

section \<open>The kernel\<close>

text \<open>
  The function \<^verbatim>\<open>project_ray_to_voxels\<close> of \<^verbatim>\<open>src/projector_core.cpp\<close>, which Python
  calls as \<^verbatim>\<open>project_ray\<close>. Its \<^verbatim>\<open>int\<close> parameters are integers of HOL: the kernel does
  no \<^verbatim>\<open>int\<close> arithmetic but the loop counter's, which stays below 500. The local
  \<^verbatim>\<open>voxel_size\<close> of line 80 is computed and never read; the model leaves it out.

  \<^verbatim>\<open>struct Vec3 { double x, y, z; }\<close>:
\<close>

datatype Vec3 = Vec3 (vec_x: double) (vec_y: double) (vec_z: double)

subsection \<open>Ray direction (source lines 53 to 74)\<close>

text \<open>
  \<^verbatim>\<open>M_PI\<close> is the \<^verbatim>\<open>double\<close> \<^verbatim>\<open>3.14159265358979323846\<close> rounds to. The literal
  \<^verbatim>\<open>1e-6\<close> is read as \<open>10\<^sup>-\<^sup>6\<close>: the \<^verbatim>\<open>double\<close> it denotes is the greatest one below
  \<open>10\<^sup>-\<^sup>6\<close>, so a \<^verbatim>\<open>double\<close> exceeds the one exactly when it exceeds the other.
\<close>

definition M_PI :: real where
  "M_PI = 884279719003555 / 281474976710656"

definition fov_rad :: "double \<Rightarrow> double" where
  "fov_rad fov_degrees = d_mul fov_degrees (d_div (Fin M_PI) (Fin 180))"

definition focal_length :: "int \<Rightarrow> double \<Rightarrow> double" where
  "focal_length img_w fov_degrees =
     d_div (d_div (d_of_int img_w) (Fin 2)) (d_tan (d_div (fov_rad fov_degrees) (Fin 2)))"

text \<open>The camera-space vector before normalisation.\<close>

definition ray_cam :: "int \<Rightarrow> int \<Rightarrow> int \<Rightarrow> int \<Rightarrow> double \<Rightarrow> Vec3" where
  "ray_cam p_x p_y img_w img_h fov_degrees =
     Vec3 (d_sub (d_of_int p_x) (d_div (d_of_int img_w) (Fin 2)))
          (d_sub (d_of_int p_y) (d_div (d_of_int img_h) (Fin 2)))
          (d_neg (focal_length img_w fov_degrees))"

definition norm_of :: "Vec3 \<Rightarrow> double" where
  "norm_of v =
     d_sqrt (d_add (d_add (d_mul (vec_x v) (vec_x v)) (d_mul (vec_y v) (vec_y v)))
                   (d_mul (vec_z v) (vec_z v)))"

definition normalise :: "Vec3 \<Rightarrow> Vec3" where
  "normalise v =
     (let norm = norm_of v in
      if d_gt norm (Fin (1 / 10 ^ 6))
      then Vec3 (d_div (vec_x v) norm) (d_div (vec_y v) norm) (d_div (vec_z v) norm)
      else v)"

text \<open>Camera space is world space: no rotation is applied.\<close>

definition ray_world_dir :: "int \<Rightarrow> int \<Rightarrow> int \<Rightarrow> int \<Rightarrow> double \<Rightarrow> Vec3" where
  "ray_world_dir p_x p_y img_w img_h fov_degrees =
     normalise (ray_cam p_x p_y img_w img_h fov_degrees)"

subsection \<open>Ray marching (source lines 80 to 111)\<close>

definition step_count :: int where
  "step_count = 500"

definition t_max :: "double \<Rightarrow> double" where
  "t_max grid_world_size = d_mul grid_world_size (Fin 2)"

definition step_size :: "double \<Rightarrow> double" where
  "step_size grid_world_size = d_div (t_max grid_world_size) (d_of_int step_count)"

definition grid_half_size :: "double \<Rightarrow> double" where
  "grid_half_size grid_world_size = d_div grid_world_size (Fin 2)"

definition sample_t :: "double \<Rightarrow> int \<Rightarrow> double" where
  "sample_t grid_world_size i = d_mul (d_of_int i) (step_size grid_world_size)"

definition current_point :: "Vec3 \<Rightarrow> Vec3 \<Rightarrow> double \<Rightarrow> int \<Rightarrow> Vec3" where
  "current_point ray_origin dir grid_world_size i =
     (let t = sample_t grid_world_size i in
      Vec3 (d_add (vec_x ray_origin) (d_mul t (vec_x dir)))
           (d_add (vec_y ray_origin) (d_mul t (vec_y dir)))
           (d_add (vec_z ray_origin) (d_mul t (vec_z dir))))"

text \<open>
  One axis of the conversion of a world point to voxel indices (lines 101 to 103): the
  \<^verbatim>\<open>double\<close> \<^verbatim>\<open>((coordinate + grid_half_size) / grid_world_size) * grid_size\<close>, and its
  conversion to \<^verbatim>\<open>int\<close>.
\<close>

definition scaled_coordinate :: "int \<Rightarrow> double \<Rightarrow> double \<Rightarrow> double" where
  "scaled_coordinate grid_size grid_world_size c =
     d_mul (d_div (d_add c (grid_half_size grid_world_size)) grid_world_size)
           (d_of_int grid_size)"

definition axis_index :: "(double \<Rightarrow> int) \<Rightarrow> int \<Rightarrow> double \<Rightarrow> double \<Rightarrow> int" where
  "axis_index undef grid_size grid_world_size c =
     static_cast_int undef (scaled_coordinate grid_size grid_world_size c)"

definition voxel_index :: "(double \<Rightarrow> int) \<Rightarrow> int \<Rightarrow> double \<Rightarrow> Vec3 \<Rightarrow> int \<times> int \<times> int" where
  "voxel_index undef grid_size grid_world_size p =
     (axis_index undef grid_size grid_world_size (vec_x p),
      axis_index undef grid_size grid_world_size (vec_y p),
      axis_index undef grid_size grid_world_size (vec_z p))"

text \<open>The bounds check of line 106.\<close>

fun in_bounds :: "int \<Rightarrow> int \<times> int \<times> int \<Rightarrow> bool" where
  "in_bounds grid_size (ix, iy, iz) =
     (ix \<ge> 0 \<and> ix < grid_size \<and> iy \<ge> 0 \<and> iy < grid_size \<and> iz \<ge> 0 \<and> iz < grid_size)"

text \<open>
  The state of the loop: the voxel buffer and a trace. The buffer is a function of the
  three indices, as the unchecked accessor \<^verbatim>\<open>voxel_grid(ix, iy, iz)\<close> is: the array the
  caller passes has its own shape, which the kernel never reads, and the bounds check
  against \<open>grid_size\<close> is all that guards an access. The trace has one event per executed
  iteration, recording the sample parameter, the sample point, the indices computed from
  it and whether the iteration wrote. The trace is not in the code; it makes the sequence
  of iterations and of writes a value that theorems can speak about.
\<close>

datatype event =
  Event (ev_t: double) (ev_point: Vec3) (ev_index: "int \<times> int \<times> int") (ev_written: bool)

record march_state =
  voxel_grid :: "int \<times> int \<times> int \<Rightarrow> float"
  trace :: "event list"

definition march_step ::
  "(double \<Rightarrow> int) \<Rightarrow> Vec3 \<Rightarrow> Vec3 \<Rightarrow> int \<Rightarrow> double \<Rightarrow> float \<Rightarrow> int \<Rightarrow> march_state \<Rightarrow> march_state"
where
  "march_step undef ray_origin dir grid_size grid_world_size brightness i s =
     (let t = sample_t grid_world_size i;
          p = current_point ray_origin dir grid_world_size i;
          idx = voxel_index undef grid_size grid_world_size p
      in if in_bounds grid_size idx
         then s\<lparr>voxel_grid := (voxel_grid s)(idx := f_add (voxel_grid s idx) brightness),
                trace := trace s @ [Event t p idx True]\<rparr>
         else s\<lparr>trace := trace s @ [Event t p idx False]\<rparr>)"

text \<open>\<^verbatim>\<open>for (int i = 0; i < step_count; ++i)\<close>, entered at \<open>i\<close>.\<close>

function march_loop ::
  "(double \<Rightarrow> int) \<Rightarrow> Vec3 \<Rightarrow> Vec3 \<Rightarrow> int \<Rightarrow> double \<Rightarrow> float \<Rightarrow> int \<Rightarrow> march_state \<Rightarrow> march_state"
where
  "march_loop undef ray_origin dir grid_size grid_world_size brightness i s =
     (if i < step_count
      then march_loop undef ray_origin dir grid_size grid_world_size brightness (i + 1)
             (march_step undef ray_origin dir grid_size grid_world_size brightness i s)
      else s)"
  by pat_completeness auto
termination
  by (relation "measure (\<lambda>(undef, ray_origin, dir, grid_size, grid_world_size, brightness, i, s).
        nat (step_count - i))") auto

declare march_loop.simps [simp del]

definition project_ray_to_voxels ::
  "(double \<Rightarrow> int) \<Rightarrow> (int \<times> int \<times> int \<Rightarrow> float) \<Rightarrow> int \<Rightarrow> int \<Rightarrow> double \<Rightarrow> double \<Rightarrow> double \<Rightarrow>
   int \<Rightarrow> int \<Rightarrow> double \<Rightarrow> int \<Rightarrow> double \<Rightarrow> float \<Rightarrow> march_state"
where
  "project_ray_to_voxels undef voxel_grid_py p_x p_y cam_pos_x cam_pos_y cam_pos_z
       img_w img_h fov_degrees grid_size grid_world_size brightness =
     (let dir = ray_world_dir p_x p_y img_w img_h fov_degrees;
          ray_origin = Vec3 cam_pos_x cam_pos_y cam_pos_z
      in march_loop undef ray_origin dir grid_size grid_world_size brightness 0
           \<lparr>voxel_grid = voxel_grid_py, trace = []\<rparr>)"

text \<open>A zero-initialised grid, as the caller allocates it.\<close>

definition zero_grid :: "int \<times> int \<times> int \<Rightarrow> float" where
  "zero_grid idx = Fin 0"

section \<open>The loop as a list of iterations\<close>

text \<open>
  What iteration \<open>i\<close> computes does not depend on the state, so the loop is described by
  the list of its iterations \<open>[i..step_count - 1]\<close>: the indices of sample \<open>i\<close>, the
  event it appends, and the number of iterations from \<open>i\<close> on that write a given voxel.
\<close>

definition index_at ::
  "(double \<Rightarrow> int) \<Rightarrow> Vec3 \<Rightarrow> Vec3 \<Rightarrow> int \<Rightarrow> double \<Rightarrow> int \<Rightarrow> int \<times> int \<times> int"
where
  "index_at undef ray_origin dir grid_size grid_world_size i =
     voxel_index undef grid_size grid_world_size
       (current_point ray_origin dir grid_world_size i)"

definition event_at ::
  "(double \<Rightarrow> int) \<Rightarrow> Vec3 \<Rightarrow> Vec3 \<Rightarrow> int \<Rightarrow> double \<Rightarrow> int \<Rightarrow> event"
where
  "event_at undef ray_origin dir grid_size grid_world_size i =
     Event (sample_t grid_world_size i) (current_point ray_origin dir grid_world_size i)
       (index_at undef ray_origin dir grid_size grid_world_size i)
       (in_bounds grid_size (index_at undef ray_origin dir grid_size grid_world_size i))"

definition hits ::
  "(double \<Rightarrow> int) \<Rightarrow> Vec3 \<Rightarrow> Vec3 \<Rightarrow> int \<Rightarrow> double \<Rightarrow> int \<Rightarrow> int \<times> int \<times> int \<Rightarrow> nat"
where
  "hits undef ray_origin dir grid_size grid_world_size i idx =
     length (filter (\<lambda>j. in_bounds grid_size idx \<and>
                          index_at undef ray_origin dir grid_size grid_world_size j = idx)
               [i..step_count - 1])"

section \<open>Properties of rounding\<close>

lemma two_powr_int: "(2::real) powr (of_int k) = 2 powi k"
  by (simp add: powr_real_of_int')

lemma two_powr_int_Suc: "(2::real) powr (of_int k + 1) = 2 powi (k + 1)"
  using two_powr_int [of "k + 1"] by simp

lemma two_powi_less_iff: "(2::real) powi m < 2 powi n \<longleftrightarrow> m < n"
  using power_int_strict_increasing [of m n "2::real"] power_int_increasing [of n m "2::real"]
  by (cases "m < n") auto

lemma two_powi_le_iff: "(2::real) powi m \<le> 2 powi n \<longleftrightarrow> m \<le> n"
  using two_powi_less_iff [of n m] by (auto simp: not_less [symmetric])

lemma two_powi_add: "(2::real) powi (a + b) = 2 powi a * 2 powi b"
  by (simp add: power_int_add)

lemma binade_bounds:
  assumes "x \<noteq> 0"
  shows "2 powi (binade x) \<le> \<bar>x\<bar>" and "\<bar>x\<bar> < 2 powi (binade x + 1)"
proof -
  have pos: "0 < \<bar>x\<bar>" using assms by simp
  have "2 powr (of_int (binade x)) \<le> \<bar>x\<bar> \<and> \<bar>x\<bar> < 2 powr (of_int (binade x + 1))"
    using floor_log_eq_powr_iff [OF pos, of 2 "binade x"] by (simp add: binade_def)
  then show "2 powi (binade x) \<le> \<bar>x\<bar>" and "\<bar>x\<bar> < 2 powi (binade x + 1)"
    by (simp_all add: two_powr_int two_powr_int_Suc)
qed

lemma binade_eq:
  assumes "2 powi e \<le> \<bar>x\<bar>" and "\<bar>x\<bar> < 2 powi (e + 1)"
  shows "binade x = e"
proof -
  have pos: "0 < \<bar>x\<bar>" using assms(1) zero_less_power_int [of "2::real" e] by linarith
  have "2 powr (of_int e) \<le> \<bar>x\<bar> \<and> \<bar>x\<bar> < 2 powr (of_int (e + 1))"
    using assms by (simp add: two_powr_int two_powr_int_Suc)
  then show ?thesis
    using floor_log_eq_powr_iff [OF pos, of 2 e] by (simp add: binade_def)
qed

lemma binade_minus [simp]: "binade (- x) = binade x"
  by (simp add: binade_def)

lemma quantum_minus [simp]: "quantum p emin (- x) = quantum p emin x"
  by (simp add: quantum_def)

lemma quantum_pos [simp]: "0 < quantum p emin x"
  by (simp add: quantum_def)

lemma quantum_nonneg [simp]: "0 \<le> quantum p emin x"
  by (simp add: quantum_def)

lemma quantum_neq_0 [simp]: "quantum p emin x \<noteq> 0"
  using quantum_pos [of p emin x] by linarith

lemma round_even_of_int [simp]: "round_even (of_int n) = n"
  by (simp add: round_even_def)

lemma round_even_error: "\<bar>of_int (round_even q) - q\<bar> \<le> 1 / 2"
  unfolding round_even_def by (auto simp: abs_if) linarith+

lemma round_even_ge: "of_int n \<le> q \<Longrightarrow> n \<le> round_even q"
proof -
  assume "of_int n \<le> q"
  then have "n \<le> \<lfloor>q\<rfloor>" by (simp add: le_floor_iff)
  moreover have "\<lfloor>q\<rfloor> \<le> round_even q" unfolding round_even_def by simp
  ultimately show ?thesis by linarith
qed

lemma round_even_le: "q \<le> of_int n \<Longrightarrow> round_even q \<le> n"
proof -
  assume le: "q \<le> of_int n"
  show ?thesis
  proof (cases "q = of_int n")
    case True
    then show ?thesis by simp
  next
    case False
    with le have "q < of_int n" by simp
    then have "\<lfloor>q\<rfloor> < n" by (simp add: floor_less_iff)
    then show ?thesis unfolding round_even_def by auto
  qed
qed

lemma round_even_minus: "round_even (- q) = - round_even q"
proof (cases "q \<in> \<int>")
  case True
  then obtain n where "q = of_int n" by (auto elim: Ints_cases)
  then show ?thesis by (metis of_int_minus round_even_of_int)
next
  case False
  then have c: "\<lfloor>- q\<rfloor> = - \<lfloor>q\<rfloor> - 1"
    by (metis ceiling_altdef ceiling_def Ints_of_int add_diff_cancel_right' minus_diff_eq uminus_add_conv_diff of_int_floor)
  have f: "q - of_int \<lfloor>q\<rfloor> < 1" "0 \<le> q - of_int \<lfloor>q\<rfloor>" by linarith+
  have ne: "q \<noteq> of_int \<lfloor>q\<rfloor>" using False by (metis Ints_of_int)
  show ?thesis
    unfolding round_even_def c using f ne
    by (auto simp: field_simps)
qed


lemma round_even_0 [simp]: "round_even 0 = 0"
  using round_even_of_int [of 0] by simp

lemma round_to_0 [simp]: "round_to p emin 0 = 0"
  by (simp add: round_to_def)

lemma round_to_minus: "round_to p emin (- x) = - round_to p emin x"
  by (simp add: round_to_def round_even_minus)


lemma round_to_error: "\<bar>round_to p emin x - x\<bar> \<le> quantum p emin x / 2"
proof -
  let ?q = "quantum p emin x"
  have "\<bar>of_int (round_even (x / ?q)) - x / ?q\<bar> * ?q \<le> 1 / 2 * ?q"
    using round_even_error [of "x / ?q"] by (intro mult_right_mono) simp_all
  moreover have "\<bar>of_int (round_even (x / ?q)) - x / ?q\<bar> * ?q = \<bar>round_to p emin x - x\<bar>"
  proof -
    have "(of_int (round_even (x / ?q)) - x / ?q) * ?q = round_to p emin x - x"
      by (simp add: round_to_def left_diff_distrib)
    then have "\<bar>round_to p emin x - x\<bar> = \<bar>of_int (round_even (x / ?q)) - x / ?q\<bar> * \<bar>?q\<bar>"
      by (simp only: abs_mult [symmetric])
    then show ?thesis by simp
  qed
  ultimately show ?thesis by simp
qed

lemma representable_minus: "representable p emin (- y) \<longleftrightarrow> representable p emin y"
proof -
  have "representable p emin (- y)" if "representable p emin y" for y
  proof -
    from that obtain m k where "y = of_int m * 2 powi k" "\<bar>m\<bar> < 2 ^ p" "emin - (int p - 1) \<le> k"
      unfolding representable_def by blast
    then have "- y = of_int (- m) * 2 powi k \<and> \<bar>- m\<bar> < 2 ^ p \<and> emin - (int p - 1) \<le> k"
      by simp
    then show ?thesis unfolding representable_def by blast
  qed
  from this [of y] this [of "- y"] show ?thesis by auto
qed

lemma representable_0 [simp]: "representable p emin 0"
  unfolding representable_def by (intro exI [of _ 0] exI [of _ "emin - (int p - 1)"]) simp

text \<open>A representable number at or above the binade of \<open>x\<close> is a multiple of the quantum of \<open>x\<close>.\<close>

lemma representable_multiple:
  assumes "representable p emin a"
    and "binade x < emin \<or> 2 powi (binade x) \<le> \<bar>a\<bar>"
  shows "\<exists>n. a = of_int n * quantum p emin x"
proof -
  from assms(1) obtain m k where a: "a = of_int m * 2 powi k" and m: "\<bar>m\<bar> < 2 ^ p"
    and k: "emin - (int p - 1) \<le> k"
    unfolding representable_def by blast
  let ?u = "max (binade x) emin - (int p - 1)"
  have "?u \<le> k"
  proof (cases "binade x < emin")
    case True
    then show ?thesis using k by simp
  next
    case False
    with assms(2) have le: "2 powi (binade x) \<le> \<bar>a\<bar>" by simp
    have "\<bar>a\<bar> = of_int \<bar>m\<bar> * 2 powi k" by (simp add: a abs_mult)
    also have "\<dots> < 2 ^ p * 2 powi k"
    proof -
      have "real_of_int \<bar>m\<bar> < 2 ^ p" using m by (metis of_int_less_iff of_int_numeral of_int_power)
      then show ?thesis by (intro mult_strict_right_mono) simp_all
    qed
    also have "\<dots> = 2 powi (int p + k)" by (simp add: power_int_add)
    finally have "(2::real) powi (binade x) < 2 powi (int p + k)" using le by linarith
    then have "binade x < int p + k" by (simp only: two_powi_less_iff)
    with False k show ?thesis by simp
  qed
  then obtain d where d: "k = ?u + int d" by (metis zle_iff_zadd)
  have "a = of_int (m * 2 ^ d) * 2 powi ?u"
    unfolding a d by (simp add: power_int_add)
  then show ?thesis unfolding quantum_def by blast
qed


lemma round_to_multiple: "round_to p emin x = of_int n * quantum p emin x \<longleftrightarrow> round_even (x / quantum p emin x) = n"
  by (simp add: round_to_def)

lemma round_to_exact:
  assumes "representable p emin y"
  shows "round_to p emin y = y"
proof (cases "y = 0")
  case True
  then show ?thesis by simp
next
  case False
  have "binade y < emin \<or> 2 powi (binade y) \<le> \<bar>y\<bar>"
    using binade_bounds(1) [OF False] by simp
  from representable_multiple [OF assms this]
  obtain n where n: "y = of_int n * quantum p emin y" by blast
  then have "y / quantum p emin y = of_int n"
    by (metis nonzero_mult_div_cancel_right quantum_neq_0)
  then have "round_even (y / quantum p emin y) = n" by simp
  then show ?thesis using n by (simp add: round_to_def)
qed

lemma two_powi_binade_multiple:
  assumes "0 < p" and "emin \<le> binade x"
  shows "2 powi (binade x) = of_int (2 ^ (p - 1)) * quantum p emin x"
proof -
  have "max (binade x) emin = binade x" using assms(2) by simp
  moreover have "int (p - 1) = int p - 1" using assms(1) by simp
  ultimately have "quantum p emin x = 2 powi (binade x - int (p - 1))"
    by (simp add: quantum_def)
  then show ?thesis by (simp add: power_int_diff)
qed

lemma round_to_ge_pos:
  assumes "0 < p" and "representable p emin a" and "a \<le> x" and "0 < x"
  shows "a \<le> round_to p emin x"
proof (cases "binade x < emin \<or> 2 powi (binade x) \<le> \<bar>a\<bar>")
  case True
  from representable_multiple [OF assms(2) True]
  obtain n where n: "a = of_int n * quantum p emin x" by blast
  then have "of_int n = a / quantum p emin x" by simp
  also have "\<dots> \<le> x / quantum p emin x" using assms(3) by (simp add: divide_right_mono)
  finally have "n \<le> round_even (x / quantum p emin x)" by (rule round_even_ge)
  then have "of_int n * quantum p emin x \<le> round_to p emin x"
    unfolding round_to_def by (intro mult_right_mono) simp_all
  then show ?thesis using n by simp
next
  case False
  then have e: "emin \<le> binade x" and a: "\<bar>a\<bar> < 2 powi (binade x)" by simp_all
  have x: "2 powi (binade x) \<le> x" using binade_bounds(1) [of x] assms(4) by simp
  have m: "2 powi (binade x) = of_int (2 ^ (p - 1)) * quantum p emin x"
    using assms(1) e by (rule two_powi_binade_multiple)
  then have "of_int (2 ^ (p - 1)) = 2 powi (binade x) / quantum p emin x" by simp
  also have "\<dots> \<le> x / quantum p emin x" using x by (simp add: divide_right_mono)
  finally have "2 ^ (p - 1) \<le> round_even (x / quantum p emin x)" by (rule round_even_ge)
  then have "of_int (2 ^ (p - 1)) * quantum p emin x \<le> round_to p emin x"
    unfolding round_to_def by (intro mult_right_mono) simp_all
  with m a show ?thesis by linarith
qed

lemma round_to_le_pos:
  assumes "representable p emin b" and "x \<le> b" and "0 < x"
  shows "round_to p emin x \<le> b"
proof -
  have "2 powi (binade x) \<le> \<bar>b\<bar>" using binade_bounds(1) [of x] assms(2,3) by simp
  then have "binade x < emin \<or> 2 powi (binade x) \<le> \<bar>b\<bar>" by simp
  from representable_multiple [OF assms(1) this]
  obtain n where n: "b = of_int n * quantum p emin x" by blast
  then have "of_int n = b / quantum p emin x" by simp
  then have "x / quantum p emin x \<le> of_int n" using assms(2) by (simp add: divide_right_mono)
  then have "round_even (x / quantum p emin x) \<le> n" by (rule round_even_le)
  then have "round_to p emin x \<le> of_int n * quantum p emin x"
    unfolding round_to_def by (intro mult_right_mono) simp_all
  then show ?thesis using n by simp
qed

lemma round_to_ge:
  assumes "0 < p" and "representable p emin a" and "a \<le> x"
  shows "a \<le> round_to p emin x"
proof -
  consider "0 < x" | "x = 0" | "x < 0" by linarith
  then show ?thesis
  proof cases
    case 1
    with assms show ?thesis by (intro round_to_ge_pos)
  next
    case 2
    with assms(3) show ?thesis by simp
  next
    case 3
    have "representable p emin (- a)" using assms(2) by (simp add: representable_minus)
    moreover have "- x \<le> - a" using assms(3) by simp
    moreover have "0 < - x" using 3 by simp
    ultimately have "round_to p emin (- x) \<le> - a" by (rule round_to_le_pos)
    then show ?thesis by (simp add: round_to_minus)
  qed
qed

lemma round_to_le:
  assumes "0 < p" and "representable p emin b" and "x \<le> b"
  shows "round_to p emin x \<le> b"
proof -
  have "representable p emin (- b)" using assms(2) by (simp add: representable_minus)
  moreover have "- b \<le> - x" using assms(3) by simp
  ultimately have "- b \<le> round_to p emin (- x)" using assms(1) by (intro round_to_ge)
  then show ?thesis by (simp add: round_to_minus)
qed

lemma round_to_relative:
  assumes "2 powi emin \<le> \<bar>x\<bar>"
  shows "\<bar>round_to p emin x - x\<bar> \<le> 2 powi (- int p) * \<bar>x\<bar>"
proof -
  have "0 < (2::real) powi emin" by simp
  with assms have "0 < \<bar>x\<bar>" by linarith
  then have nz: "x \<noteq> 0" by simp
  have "(2::real) powi emin < 2 powi (binade x + 1)"
    using assms binade_bounds(2) [OF nz] by linarith
  then have "emin \<le> binade x" by (simp only: two_powi_less_iff)
  then have "quantum p emin x = 2 powi (binade x - (int p - 1))" by (simp add: quantum_def)
  also have "\<dots> = 2 powi ((1 - int p) + binade x)"
    by (rule arg_cong [where f = "\<lambda>k. 2 powi k"]) simp
  also have "\<dots> = 2 powi (1 - int p) * 2 powi (binade x)" by (rule two_powi_add)
  also have "\<dots> \<le> 2 powi (1 - int p) * \<bar>x\<bar>"
    using binade_bounds(1) [OF nz] by (intro mult_left_mono) simp_all
  finally have "quantum p emin x / 2 \<le> 2 powi (1 - int p) * \<bar>x\<bar> / 2" by simp
  also have "\<dots> = 2 powi (- int p) * \<bar>x\<bar>"
  proof -
    have "(2::real) powi (1 - int p) = 2 powi (1 + (- int p))" by simp
    also have "\<dots> = 2 * 2 powi (- int p)" by (simp only: two_powi_add) simp
    finally show ?thesis by simp
  qed
  finally show ?thesis using round_to_error [of p emin x] by linarith
qed

lemma round_to_eval:
  assumes "2 powi e \<le> \<bar>x\<bar>" and "\<bar>x\<bar> < 2 powi (e + 1)"
  shows "round_to p emin x =
    of_int (round_even (x / 2 powi (max e emin - (int p - 1)))) * 2 powi (max e emin - (int p - 1))"
  using binade_eq [OF assms] by (simp add: round_to_def quantum_def)

lemma representable_round_to:
  assumes "0 < p"
  shows "representable p emin (round_to p emin x)"
proof -
  let ?q = "quantum p emin x"
  let ?u = "max (binade x) emin - (int p - 1)"
  have q: "?q = 2 powi ?u" by (simp add: quantum_def)
  have bound: "\<bar>x\<bar> \<le> 2 ^ p * ?q"
  proof (cases "x = 0")
    case True
    then show ?thesis by simp
  next
    case False
    have "\<bar>x\<bar> < 2 powi (binade x + 1)" by (rule binade_bounds(2) [OF False])
    also have "\<dots> \<le> 2 powi (max (binade x) emin + 1)" by (simp only: two_powi_le_iff)
    also have "\<dots> = 2 powi (int p + ?u)"
      by (rule arg_cong [where f = "\<lambda>k. 2 powi k"]) simp
    also have "\<dots> = 2 ^ p * ?q" by (simp only: two_powi_add power_int_of_nat q)
    finally show ?thesis by simp
  qed
  then have "x / ?q \<le> of_int (2 ^ p)" and "of_int (- (2 ^ p)) \<le> x / ?q"
    by (simp_all add: pos_divide_le_eq pos_le_divide_eq abs_le_iff)
  then have r: "round_even (x / ?q) \<le> 2 ^ p" "- (2 ^ p) \<le> round_even (x / ?q)"
    by (simp_all only: round_even_le round_even_ge)
  let ?m = "round_even (x / ?q)"
  have shift: "2 ^ p * ?q = (2::real) powi (?u + int p)"
    by (simp only: q two_powi_add power_int_of_nat mult.commute)
  have one: "\<bar>1::int\<bar> < 2 ^ p" "\<bar>- 1::int\<bar> < 2 ^ p" using assms by simp_all
  have k: "emin - (int p - 1) \<le> ?u + int p" by linarith
  consider "\<bar>?m\<bar> < 2 ^ p" | "?m = 2 ^ p" | "?m = - (2 ^ p)" using r by linarith
  then show ?thesis
  proof cases
    case 1
    have "round_to p emin x = of_int ?m * 2 powi ?u \<and> \<bar>?m\<bar> < 2 ^ p \<and> emin - (int p - 1) \<le> ?u"
      using 1 by (simp add: round_to_def q)
    then show ?thesis unfolding representable_def by blast
  next
    case 2
    have "round_to p emin x = 2 ^ p * ?q"
      using 2 by (simp add: round_to_def)
    then have "round_to p emin x = of_int 1 * 2 powi (?u + int p)"
      unfolding shift by simp
    with one(1) k show ?thesis unfolding representable_def by blast
  next
    case 3
    have "round_to p emin x = - (2 ^ p * ?q)"
      using 3 by (simp add: round_to_def)
    then have "round_to p emin x = of_int (- 1) * 2 powi (?u + int p)"
      unfolding shift by simp
    with one(2) k show ?thesis unfolding representable_def by blast
  qed
qed

text \<open>Rounding into a format with a largest exponent.\<close>

lemma rnd_exact:
  assumes "representable p emin y" and "\<bar>y\<bar> < 2 powi (emax + 1)"
  shows "rnd p emin emax y = Fin y"
  using assms by (simp add: rnd_def round_to_exact)

lemma rnd_Fin:
  assumes "0 < p" and "rnd p emin emax x = Fin y"
  shows "y = round_to p emin x" and "representable p emin y" and "\<bar>y\<bar> < 2 powi (emax + 1)"
proof -
  from assms(2) show y: "y = round_to p emin x" and "\<bar>y\<bar> < 2 powi (emax + 1)"
    by (auto simp: rnd_def Let_def split: if_splits)
  show "representable p emin y" unfolding y using assms(1) by (rule representable_round_to)
qed

lemma rnd_between:
  assumes "0 < p" and "representable p emin a" and "representable p emin b"
    and "a \<le> x" and "x \<le> b" and "\<bar>a\<bar> < 2 powi (emax + 1)" and "\<bar>b\<bar> < 2 powi (emax + 1)"
  shows "\<exists>y. rnd p emin emax x = Fin y \<and> a \<le> y \<and> y \<le> b \<and>
           representable p emin y \<and> \<bar>y\<bar> < 2 powi (emax + 1)"
proof -
  let ?y = "round_to p emin x"
  have lo: "a \<le> ?y" using assms(1,2,4) by (rule round_to_ge)
  have hi: "?y \<le> b" using assms(1,3,5) by (rule round_to_le)
  have fin: "\<bar>?y\<bar> < 2 powi (emax + 1)" using lo hi assms(6,7) by linarith
  then have "rnd p emin emax x = Fin ?y" by (simp add: rnd_def)
  with lo hi fin representable_round_to [OF assms(1), of emin x] show ?thesis by blast
qed

lemma is_double_minus [simp]: "is_double (- y) \<longleftrightarrow> is_double y"
  by (simp add: is_double_def representable_minus)

lemma is_float_minus [simp]: "is_float (- y) \<longleftrightarrow> is_float y"
  by (simp add: is_float_def representable_minus)

lemma rnd64_exact: "is_double y \<Longrightarrow> rnd64 y = Fin y"
  unfolding is_double_def rnd64_def by (intro rnd_exact) simp_all

lemma rnd32_exact: "is_float y \<Longrightarrow> rnd32 y = Fin y"
  unfolding is_float_def rnd32_def by (intro rnd_exact) simp_all

lemma rnd64_Fin: "rnd64 x = Fin y \<Longrightarrow> is_double y"
  unfolding rnd64_def is_double_def using rnd_Fin(2,3) [of 53 "- 1022" 1023 x y] by simp

lemma rnd32_Fin: "rnd32 x = Fin y \<Longrightarrow> is_float y"
  unfolding rnd32_def is_float_def using rnd_Fin(2,3) [of 24 "- 126" 127 x y] by simp

lemma rnd64_between:
  assumes "is_double a" and "is_double b" and "a \<le> x" and "x \<le> b"
  shows "\<exists>y. rnd64 x = Fin y \<and> a \<le> y \<and> y \<le> b \<and> is_double y"
  using rnd_between [of 53 "- 1022" a b x 1023] assms
  unfolding is_double_def rnd64_def by simp

lemma rnd32_between:
  assumes "is_float a" and "is_float b" and "a \<le> x" and "x \<le> b"
  shows "\<exists>y. rnd32 x = Fin y \<and> a \<le> y \<and> y \<le> b \<and> is_float y"
  using rnd_between [of 24 "- 126" a b x 127] assms
  unfolding is_float_def rnd32_def by simp

lemma div_pow2_le:
  assumes "0 \<le> (a::real)"
  shows "a / 2 ^ k \<le> a"
proof -
  have "a * 1 \<le> a * 2 ^ k" using assms by (intro mult_left_mono) simp_all
  then show ?thesis by (simp add: pos_divide_le_eq)
qed

lemma representable_dyadic:
  assumes "\<bar>n\<bar> < 2 ^ p" and "int k \<le> int p - 1 - emin"
  shows "representable p emin (of_int n / 2 ^ k)"
proof -
  have "of_int n / 2 ^ k = of_int n * (2::real) powi (- int k)"
    by (simp add: power_int_minus field_simps)
  moreover have "emin - (int p - 1) \<le> - int k" using assms(2) by linarith
  ultimately show ?thesis using assms(1) unfolding representable_def by blast
qed

lemma is_double_dyadic:
  assumes "\<bar>n\<bar> < 2 ^ 53" and "k \<le> 1074"
  shows "is_double (of_int n / 2 ^ k)"
proof -
  have "representable 53 (- 1022) (of_int n / 2 ^ k)"
    using assms by (intro representable_dyadic) simp_all
  moreover have "\<bar>real_of_int n / 2 ^ k\<bar> < 2 powi 1024"
  proof -
    have "\<bar>real_of_int n\<bar> < 2 ^ 53" using assms(1) by (metis of_int_abs of_int_less_iff of_int_numeral of_int_power)
    moreover have "\<bar>real_of_int n / 2 ^ k\<bar> \<le> \<bar>real_of_int n\<bar>"
      using div_pow2_le [of "\<bar>real_of_int n\<bar>" k] by (simp add: abs_divide)
    moreover have "(2::real) ^ 53 \<le> 2 powi 1024" by simp
    ultimately show ?thesis by linarith
  qed
  ultimately show ?thesis by (simp add: is_double_def)
qed

lemma is_float_dyadic:
  assumes "\<bar>n\<bar> < 2 ^ 24" and "k \<le> 149"
  shows "is_float (of_int n / 2 ^ k)"
proof -
  have "representable 24 (- 126) (of_int n / 2 ^ k)"
    using assms by (intro representable_dyadic) simp_all
  moreover have "\<bar>real_of_int n / 2 ^ k\<bar> < 2 powi 128"
  proof -
    have "\<bar>real_of_int n\<bar> < 2 ^ 24" using assms(1) by (metis of_int_abs of_int_less_iff of_int_numeral of_int_power)
    moreover have "\<bar>real_of_int n / 2 ^ k\<bar> \<le> \<bar>real_of_int n\<bar>"
      using div_pow2_le [of "\<bar>real_of_int n\<bar>" k] by (simp add: abs_divide)
    moreover have "(2::real) ^ 24 \<le> 2 powi 128" by simp
    ultimately show ?thesis by linarith
  qed
  ultimately show ?thesis by (simp add: is_float_def)
qed

lemma is_double_int: "\<bar>n\<bar> < 2 ^ 53 \<Longrightarrow> is_double (of_int n)"
  using is_double_dyadic [of n 0] by simp

lemma is_float_int: "\<bar>n\<bar> < 2 ^ 24 \<Longrightarrow> is_float (of_int n)"
  using is_float_dyadic [of n 0] by simp

section \<open>The loop, iteration by iteration\<close>

lemma trace_march_step:
  "trace (march_step undef ray_origin dir grid_size grid_world_size brightness i s) =
   trace s @ [event_at undef ray_origin dir grid_size grid_world_size i]"
  by (simp add: march_step_def event_at_def index_at_def Let_def)

lemma grid_march_step:
  "voxel_grid (march_step undef ray_origin dir grid_size grid_world_size brightness i s) idx =
   (if in_bounds grid_size idx \<and>
       index_at undef ray_origin dir grid_size grid_world_size i = idx
    then f_add (voxel_grid s idx) brightness else voxel_grid s idx)"
  by (auto simp add: march_step_def index_at_def Let_def)

lemma upto_step: "i < step_count \<Longrightarrow> [i..step_count - 1] = i # [i + 1..step_count - 1]"
  by (simp add: upto_rec1)

lemma trace_march_loop:
  "trace (march_loop undef ray_origin dir grid_size grid_world_size brightness i s) =
   trace s @ map (event_at undef ray_origin dir grid_size grid_world_size) [i..step_count - 1]"
proof (induction undef ray_origin dir grid_size grid_world_size brightness i s
    rule: march_loop.induct)
  case (1 undef ray_origin dir grid_size grid_world_size brightness i s)
  show ?case
  proof (cases "i < step_count")
    case True
    with "1.IH" show ?thesis
      by (subst march_loop.simps) (simp add: trace_march_step upto_step)
  next
    case False
    then show ?thesis by (subst march_loop.simps) simp
  qed
qed

lemma grid_march_loop:
  "voxel_grid (march_loop undef ray_origin dir grid_size grid_world_size brightness i s) idx =
   ((\<lambda>v. f_add v brightness) ^^ hits undef ray_origin dir grid_size grid_world_size i idx)
     (voxel_grid s idx)"
proof (induction undef ray_origin dir grid_size grid_world_size brightness i s
    rule: march_loop.induct)
  case (1 undef ray_origin dir grid_size grid_world_size brightness i s)
  show ?case
  proof (cases "i < step_count")
    case True
    with "1.IH" show ?thesis
      by (subst march_loop.simps)
        (simp add: grid_march_step hits_def upto_step funpow_Suc_right del: funpow.simps)
  next
    case False
    then show ?thesis by (subst march_loop.simps) (simp add: hits_def)
  qed
qed

text \<open>The whole call, in the same terms.\<close>

lemma trace_project:
  "trace (project_ray_to_voxels undef g p_x p_y cam_pos_x cam_pos_y cam_pos_z
            img_w img_h fov_degrees grid_size grid_world_size brightness) =
   map (event_at undef (Vec3 cam_pos_x cam_pos_y cam_pos_z)
          (ray_world_dir p_x p_y img_w img_h fov_degrees) grid_size grid_world_size)
     [0..step_count - 1]"
  by (simp add: project_ray_to_voxels_def trace_march_loop Let_def)

lemma grid_project:
  "voxel_grid (project_ray_to_voxels undef g p_x p_y cam_pos_x cam_pos_y cam_pos_z
                 img_w img_h fov_degrees grid_size grid_world_size brightness) idx =
   ((\<lambda>v. f_add v brightness) ^^
      hits undef (Vec3 cam_pos_x cam_pos_y cam_pos_z)
        (ray_world_dir p_x p_y img_w img_h fov_degrees) grid_size grid_world_size 0 idx)
     (g idx)"
  by (simp add: project_ray_to_voxels_def grid_march_loop Let_def)

lemma length_upto_steps: "length [0..step_count - 1] = 500"
  by (simp add: step_count_def)

lemma hits_le: "hits undef ray_origin dir grid_size grid_world_size 0 idx \<le> 500"
  unfolding hits_def using length_filter_le [of _ "[0..step_count - 1]"]
  by (simp only: length_upto_steps)

lemma event_in_trace:
  "0 \<le> i \<Longrightarrow> i < 500 \<Longrightarrow>
   event_at undef (Vec3 cam_pos_x cam_pos_y cam_pos_z)
     (ray_world_dir p_x p_y img_w img_h fov_degrees) grid_size grid_world_size i
   \<in> set (trace (project_ray_to_voxels undef g p_x p_y cam_pos_x cam_pos_y cam_pos_z
                   img_w img_h fov_degrees grid_size grid_world_size brightness))"
  by (simp add: trace_project step_count_def)

section \<open>The ray through the principal point\<close>

lemma round_even_near:
  assumes "\<bar>r - of_int m\<bar> < 1 / 2"
  shows "round_even r = m"
proof -
  have "\<bar>real_of_int (round_even r) - real_of_int m\<bar> < 1"
    using round_even_error [of r] assms by linarith
  then have "\<bar>real_of_int (round_even r - m)\<bar> < 1" by simp
  then have "\<bar>round_even r - m\<bar> < 1" by (metis of_int_abs of_int_less_1_iff)
  then show ?thesis by linarith
qed

lemma sqrt_square_round:
  assumes d: "is_double f" and f1: "1 \<le> f" and fu: "f \<le> 2 ^ 500"
  shows "\<exists>g. rnd64 (f * f) = Fin g \<and> 0 < g \<and> rnd64 (sqrt g) = Fin f"
proof -
  define e where "e = binade f"
  define B where "B = (2::real) powi e"
  define q where "q = (2::real) powi (e - 52)"
  define u where "u = (1::real) / 2 ^ 53"
  have fpos: "0 < f" and fne: "f \<noteq> 0" using f1 by simp_all
  have Bpos: "0 < B" unfolding B_def by simp
  have qpos: "0 < q" unfolding q_def by simp
  have Bf: "B \<le> f" using binade_bounds(1) [OF fne] fpos unfolding B_def e_def by simp
  have "f < 2 powi (e + 1)" using binade_bounds(2) [OF fne] fpos unfolding e_def by simp
  then have fB: "f < 2 * B" unfolding B_def by (simp add: two_powi_add)
  have "(2::real) powi 0 < 2 powi (e + 1)" using f1 \<open>f < 2 powi (e + 1)\<close> by simp
  then have e0: "0 \<le> e" by (simp only: two_powi_less_iff)
  have "(2::real) powi e \<le> 2 powi 500" using Bf fu unfolding B_def by simp
  then have e500: "e \<le> 500" by (simp only: two_powi_le_iff)
  have qq: "quantum 53 (- 1022) f = q"
    unfolding quantum_def q_def e_def [symmetric] using e0 by simp
  have "B = 2 powi (52 + (e - 52))" unfolding B_def by simp
  then have Bq: "B = 2 ^ 52 * q" unfolding q_def by (simp only: two_powi_add power_int_numeral)
  have qB: "q = 2 * u * B" unfolding Bq u_def by simp
  obtain m where m: "f = of_int m * q"
    using representable_multiple [of 53 "- 1022" f f] d Bf fpos
    unfolding is_double_def qq B_def e_def by auto
  have "of_int m * q < 2 ^ 53 * q" using fB unfolding m Bq by simp
  then have "real_of_int m < 2 ^ 53" using qpos by simp
  then have "m < 2 ^ 53" by simp
  then have "m \<le> 2 ^ 53 - 1" by simp
  then have "real_of_int m \<le> real_of_int (2 ^ 53 - 1)" by (simp only: of_int_le_iff)
  then have "real_of_int m \<le> 2 ^ 53 - 1" by simp
  then have "of_int m * q \<le> (2 ^ 53 - 1) * q" using qpos by (intro mult_right_mono) simp_all
  then have fle: "f \<le> 2 * B - q" unfolding m [symmetric] Bq by (simp add: algebra_simps)
  define g where "g = round_to 53 (- 1022) (f * f)"
  have ff1: "1 \<le> f * f" using f1 by (metis mult_mono' zero_le_one mult_1)
  have "(2::real) powi (- 1022) \<le> 2 powi 0" by (simp only: two_powi_le_iff)
  then have "2 powi (- 1022) \<le> \<bar>f * f\<bar>" using ff1 by simp
  from round_to_relative [OF this, of 53]
  have rel: "\<bar>g - f * f\<bar> \<le> u * (f * f)"
    unfolding g_def u_def by (simp add: power_int_minus field_simps)
  have BB: "B * B = of_int 1 * 2 powi (e + e)" unfolding B_def by (simp only: two_powi_add of_int_1 mult_1)
  have repB: "representable 53 (- 1022) (B * B)"
    unfolding representable_def BB
    by (rule exI [of _ 1], rule exI [of _ "e + e"]) (use e0 in simp)
  have "B * B \<le> f * f" using Bf Bpos by (intro mult_mono) simp_all
  from round_to_ge [OF _ repB this]
  have gB: "B * B \<le> g" unfolding g_def by simp
  have gpos: "0 < g" using gB Bpos by (metis less_le_trans mult_pos_pos)
  have "f * f \<le> 2 ^ 500 * 2 ^ 500" using fu fpos by (intro mult_mono) simp_all
  moreover have "g \<le> f * f + u * (f * f)" using rel by linarith
  moreover have "u * (f * f) \<le> 1 * (f * f)" using ff1 unfolding u_def by (intro mult_right_mono) simp_all
  ultimately have "g \<le> 2 * (2 ^ 500 * 2 ^ 500)" by linarith
  also have "\<dots> < (2::real) powi 1024" by simp
  finally have "\<bar>g\<bar> < 2 powi 1024" using gpos by simp
  then have rg: "rnd64 (f * f) = Fin g"
    unfolding rnd64_def rnd_def g_def by simp
  define x where "x = sqrt g"
  have xx: "x * x = g" unfolding x_def using gpos by simp
  have xB: "B \<le> x" unfolding x_def using gB by (intro real_le_rsqrt) (simp add: power2_eq_square)
  have xpos: "0 < x" using xB Bpos by linarith
  have "(1 - 2 * u) * (1 - 2 * u) < 1 - u" unfolding u_def by simp
  then have "(f * f) * ((1 - 2 * u) * (1 - 2 * u)) < (f * f) * (1 - u)"
    using ff1 by (intro mult_strict_left_mono) simp_all
  moreover have "(f * f) * (1 - u) \<le> g" using rel by (simp add: algebra_simps)
  ultimately have "(f * (1 - 2 * u))\<^sup>2 < g" by (simp add: power2_eq_square algebra_simps)
  then have xlow: "f * (1 - 2 * u) < x" unfolding x_def by (rule real_less_rsqrt)
  have "f - B \<le> B * (1 - 2 * u)" using fle unfolding qB by (simp add: algebra_simps)
  then have "f * (f - B) \<le> f * (B * (1 - 2 * u))" using fpos by (intro mult_left_mono) simp_all
  also have "\<dots> = B * (f * (1 - 2 * u))" by simp
  also have "\<dots> < B * x" using xlow Bpos by (intro mult_strict_left_mono)
  finally have key: "f * f < B * (x + f)" by (simp add: algebra_simps)
  have "\<bar>x - f\<bar> * (x + f) = \<bar>(x - f) * (x + f)\<bar>" using xpos fpos by (simp add: abs_mult)
  also have "(x - f) * (x + f) = g - f * f" unfolding xx [symmetric] by (simp add: algebra_simps)
  also have "\<bar>g - f * f\<bar> \<le> u * (f * f)" by (rule rel)
  also have "\<dots> < u * (B * (x + f))" using key unfolding u_def by (intro mult_strict_left_mono) simp_all
  finally have "\<bar>x - f\<bar> * (x + f) < (u * B) * (x + f)" by (simp add: algebra_simps)
  then have near: "\<bar>x - f\<bar> < u * B" using xpos fpos by (simp only: mult_less_cancel_right)
  have "0 < u" unfolding u_def by simp
  then have uB: "u * B < q" unfolding qB using Bpos by simp
  have "x < 2 * B" using near fle uB by linarith
  then have "\<bar>x\<bar> < 2 powi (e + 1)" using xpos unfolding B_def by (simp add: two_powi_add)
  moreover have "2 powi e \<le> \<bar>x\<bar>" using xB xpos unfolding B_def by simp
  ultimately have bx: "binade x = e" by (rule binade_eq [rotated])
  have qx: "quantum 53 (- 1022) x = q" unfolding quantum_def q_def bx using e0 by simp
  have "x / q - of_int m = (x - f) / q" unfolding m using qpos by (simp add: field_simps)
  moreover have "\<bar>(x - f) / q\<bar> < 1 / 2"
  proof -
    have "\<bar>x - f\<bar> < q / 2" using near unfolding qB by simp
    then have "\<bar>x - f\<bar> / q < (q / 2) / q" using qpos by (intro divide_strict_right_mono)
    then show ?thesis using qpos by simp
  qed
  ultimately have "round_even (x / q) = m" by (intro round_even_near) simp
  then have "round_to 53 (- 1022) x = f" unfolding round_to_def qx m by simp
  moreover have "\<bar>f\<bar> < 2 powi 1024" using d unfolding is_double_def by simp
  ultimately have "rnd64 x = Fin f" unfolding rnd64_def rnd_def by simp
  then show ?thesis using rg gpos unfolding x_def by blast
qed

lemma cos_lower: "1 - x\<^sup>2 / 2 \<le> cos (x::real)"
proof -
  have "cos x = cos (2 * (x / 2))" by simp
  also have "\<dots> = 1 - 2 * sin (x / 2) ^ 2" by (rule cos_double_sin)
  finally have c: "cos x = 1 - 2 * sin (x / 2) ^ 2" .
  have "\<bar>sin (x / 2)\<bar> \<le> \<bar>x / 2\<bar>" by (rule abs_sin_x_le_abs_x)
  then have "sin (x / 2) ^ 2 \<le> (x / 2) ^ 2" by (simp only: abs_le_square_iff)
  then show ?thesis unfolding c by (simp add: power2_eq_square) 
qed

lemma tan_bounds:
  assumes "3 / 4 \<le> (x::real)" and "x \<le> 4 / 5"
  shows "cos x \<noteq> 0" and "1 / 2 \<le> tan x" and "tan x \<le> 3 / 2"
proof -
  have x2: "x\<^sup>2 \<le> (4 / 5)\<^sup>2" using assms by (intro power_mono) simp_all
  have c: "2 / 3 \<le> cos x" using cos_lower [of x] x2 by (simp add: power2_eq_square)
  then show "cos x \<noteq> 0" by simp
  have "sin x \<le> 1" by simp
  then have "sin x / cos x \<le> 1 / cos x" using c by (intro divide_right_mono) simp_all
  also have "\<dots> \<le> 1 / (2 / 3)" using c by (intro divide_left_mono) simp_all
  finally show "tan x \<le> 3 / 2" by (simp add: tan_def)
  have pi6: "pi / 6 \<le> x" using pi_less_4 assms(1) by simp
  have pi2: "x < pi / 2" using pi_ge_two assms(2) by simp
  have "- (pi / 2) < pi / 6" using pi_gt_zero by linarith
  then have "tan (pi / 6) \<le> tan x" using pi6 pi2 by (rule tan_mono_le)
  moreover have s3: "sqrt 3 \<le> 2" by (rule real_le_lsqrt) simp_all
  have "1 / 2 \<le> 1 / sqrt 3" using s3 by (intro divide_left_mono) simp_all
  ultimately show "1 / 2 \<le> tan x" using tan_30 by linarith
qed


lemma is_double_0 [simp]: "is_double 0"
  unfolding is_double_def by simp

lemma is_float_0 [simp]: "is_float 0"
  unfolding is_float_def by simp

lemma rnd64_0 [simp]: "rnd64 0 = Fin 0"
  by (rule rnd64_exact) simp

lemma rnd32_0 [simp]: "rnd32 0 = Fin 0"
  by (rule rnd32_exact) simp

lemma is_double_numeral [simp]: "(numeral n :: int) < 2 ^ 53 \<Longrightarrow> is_double (numeral n)"
  using is_double_int [of "numeral n"] by simp

lemma is_double_1 [simp]: "is_double 1"
  using is_double_int [of 1] by simp

lemma is_float_numeral [simp]: "(numeral n :: int) < 2 ^ 24 \<Longrightarrow> is_float (numeral n)"
  using is_float_int [of "numeral n"] by simp

lemma is_float_1 [simp]: "is_float 1"
  using is_float_int [of 1] by simp


lemma d_mul_exact: "is_double (a * b) \<Longrightarrow> d_mul (Fin a) (Fin b) = Fin (a * b)"
  by (simp add: rnd64_exact)

lemma d_div_exact: "b \<noteq> 0 \<Longrightarrow> is_double (a / b) \<Longrightarrow> d_div (Fin a) (Fin b) = Fin (a / b)"
  by (simp add: rnd64_exact)

lemma f_add_exact: "is_float (a + b) \<Longrightarrow> f_add (Fin a) (Fin b) = Fin (a + b)"
  by (simp add: f_add_def rnd32_exact)

lemma d_add_between:
  assumes "is_double lo" and "is_double hi" and "lo \<le> a + b" and "a + b \<le> hi"
  shows "\<exists>y. d_add (Fin a) (Fin b) = Fin y \<and> lo \<le> y \<and> y \<le> hi \<and> is_double y"
  using rnd64_between [OF assms] by (simp add: d_add_def)

lemma d_mul_between:
  assumes "is_double lo" and "is_double hi" and "lo \<le> a * b" and "a * b \<le> hi"
  shows "\<exists>y. d_mul (Fin a) (Fin b) = Fin y \<and> lo \<le> y \<and> y \<le> hi \<and> is_double y"
  using rnd64_between [OF assms] by simp

lemma d_div_between:
  assumes "is_double lo" and "is_double hi" and "lo \<le> a / b" and "a / b \<le> hi" and "b \<noteq> 0"
  shows "\<exists>y. d_div (Fin a) (Fin b) = Fin y \<and> lo \<le> y \<and> y \<le> hi \<and> is_double y"
  using rnd64_between [OF assms(1-4)] assms(5) by simp

lemma fov_rad_90:
  "\<exists>r. fov_rad (Fin 90) = Fin r \<and> 1575 / 1024 \<le> r \<and> r \<le> 405 / 256"
proof -
  have a: "is_double (35 / 2048)" using is_double_dyadic [of 35 11] by simp
  have b: "is_double (36 / 2048)" using is_double_dyadic [of 36 11] by simp
  obtain r1 where r1: "d_div (Fin M_PI) (Fin 180) = Fin r1" "35 / 2048 \<le> r1" "r1 \<le> 36 / 2048"
    using d_div_between [OF a b, of M_PI 180] by (auto simp: M_PI_def)
  have c: "is_double (1575 / 1024)" using is_double_dyadic [of 1575 10] by simp
  have d: "is_double (405 / 256)" using is_double_dyadic [of 405 8] by simp
  have "1575 / 1024 \<le> 90 * r1" and "90 * r1 \<le> 405 / 256" using r1(2,3) by simp_all
  from d_mul_between [OF c d this] show ?thesis
    unfolding fov_rad_def r1(1) by blast
qed

lemma tan_half_fov_90:
  "\<exists>t. d_tan (d_div (fov_rad (Fin 90)) (Fin 2)) = Fin t \<and> 1 / 2 \<le> t \<and> t \<le> 3 / 2"
proof -
  obtain r where r: "fov_rad (Fin 90) = Fin r" "1575 / 1024 \<le> r" "r \<le> 405 / 256"
    using fov_rad_90 by blast
  have a: "is_double (1575 / 2048)" using is_double_dyadic [of 1575 11] by simp
  have b: "is_double (405 / 512)" using is_double_dyadic [of 405 9] by simp
  have "1575 / 2048 \<le> r / 2" and "r / 2 \<le> 405 / 512" using r(2,3) by simp_all
  from d_div_between [OF a b this]
  obtain h where h: "d_div (Fin r) (Fin 2) = Fin h" "1575 / 2048 \<le> h" "h \<le> 405 / 512"
    by auto
  have h1: "3 / 4 \<le> h" and h2: "h \<le> 4 / 5" using h(2,3) by simp_all
  note tb = tan_bounds [OF h1 h2]
  have c: "is_double (1 / 2)" using is_double_dyadic [of 1 1] by simp
  have d: "is_double (3 / 2)" using is_double_dyadic [of 3 1] by simp
  obtain t where t: "rnd64 (tan h) = Fin t" "1 / 2 \<le> t" "t \<le> 3 / 2"
    using rnd64_between [OF c d tb(2,3)] by blast
  have "d_tan (Fin h) = Fin t" using tb(1) t(1) by simp
  then show ?thesis unfolding r(1) h(1) using t(2,3) by blast
qed

lemma focal_length_centre:
  "\<exists>f. focal_length 100 (Fin 90) = Fin f \<and> 32 \<le> f \<and> f \<le> 128 \<and> is_double f"
proof -
  obtain t where t: "d_tan (d_div (fov_rad (Fin 90)) (Fin 2)) = Fin t" "1 / 2 \<le> t" "t \<le> 3 / 2"
    using tan_half_fov_90 by blast
  have half: "d_div (d_of_int 100) (Fin 2) = Fin 50"
    using d_div_exact [of 2 100] by (simp add: d_of_int_def)
  have tpos: "0 < t" using t(2) by simp
  have "50 / t \<le> 50 / (1 / 2)" using t(2) by (intro divide_left_mono) simp_all
  then have up: "50 / t \<le> 128" by simp
  have "50 / (3 / 2) \<le> 50 / t" using t(3) tpos by (intro divide_left_mono) simp_all
  then have lo: "32 \<le> 50 / t" by simp
  have tne: "t \<noteq> 0" using tpos by simp
  have e: "is_double 32" and f: "is_double 128" by simp_all
  from d_div_between [OF e f lo up tne] show ?thesis
    unfolding focal_length_def t(1) half by blast
qed

lemma ray_cam_zero: "ray_cam 0 0 0 0 (Fin 90) = Vec3 (Fin 0) (Fin 0) (Fin 0)"
proof -
  obtain t where t: "d_tan (d_div (fov_rad (Fin 90)) (Fin 2)) = Fin t" "1 / 2 \<le> t" "t \<le> 3 / 2"
    using tan_half_fov_90 by blast
  have "t \<noteq> 0" using t(2) by simp
  then show ?thesis
    by (simp add: ray_cam_def focal_length_def t(1) d_of_int_def d_sub_def d_add_def)
qed

lemma norm_of_ray_cam_zero: "norm_of (ray_cam 0 0 0 0 (Fin 90)) = Fin 0"
  by (simp add: ray_cam_zero norm_of_def d_add_def)

lemma normalise_axis:
  assumes "is_double f" and "1 \<le> f" and "f \<le> 2 ^ 500"
  shows "normalise (Vec3 (Fin 0) (Fin 0) (Fin (- f))) = Vec3 (Fin 0) (Fin 0) (Fin (- 1))"
proof -
  obtain g where g: "rnd64 (f * f) = Fin g" "0 < g" "rnd64 (sqrt g) = Fin f"
    using sqrt_square_round [OF assms] by blast
  have dg: "is_double g" using g(1) by (rule rnd64_Fin)
  have n: "norm_of (Vec3 (Fin 0) (Fin 0) (Fin (- f))) = Fin f"
    using g dg by (simp add: norm_of_def d_add_def rnd64_exact)
  have fpos: "0 < f" using assms(2) by simp
  have one: "rnd64 (- 1) = Fin (- 1)" by (rule rnd64_exact) simp
  show ?thesis
    unfolding normalise_def n Let_def using assms(2) fpos by (simp add: one)
qed

lemma ray_cam_centre:
  "\<exists>f. ray_cam 50 50 100 100 (Fin 90) = Vec3 (Fin 0) (Fin 0) (Fin (- f)) \<and>
       32 \<le> f \<and> f \<le> 128 \<and> is_double f"
proof -
  obtain f where f: "focal_length 100 (Fin 90) = Fin f" "32 \<le> f" "f \<le> 128" "is_double f"
    using focal_length_centre by blast
  have half: "d_div (d_of_int 100) (Fin 2) = Fin 50"
    using d_div_exact [of 2 100] by (simp add: d_of_int_def)
  have "d_sub (d_of_int 50) (Fin 50) = Fin 0"
    by (simp add: d_sub_def d_of_int_def d_add_def)
  then show ?thesis unfolding ray_cam_def half f(1) using f by simp
qed

lemma ray_world_dir_centre:
  "ray_world_dir 50 50 100 100 (Fin 90) = Vec3 (Fin 0) (Fin 0) (Fin (- 1))"
proof -
  obtain f where f: "ray_cam 50 50 100 100 (Fin 90) = Vec3 (Fin 0) (Fin 0) (Fin (- f))"
    "32 \<le> f" "f \<le> 128" "is_double f"
    using ray_cam_centre by blast
  have "1 \<le> f" using f(2) by simp
  moreover have "f \<le> 2 ^ 500" using f(3) by simp
  ultimately show ?thesis
    unfolding ray_world_dir_def f(1) using f(4) by (intro normalise_axis)
qed

section \<open>A ray down the z axis\<close>

lemma round_even_eval:
  assumes "of_int n - 1 / 2 < q" and "q < of_int n + 1 / 2"
  shows "round_even q = n"
proof (rule round_even_near)
  show "\<bar>q - of_int n\<bar> < 1 / 2" using assms by linarith
qed

lemma rnd64_eval:
  assumes "2 powi e \<le> \<bar>x\<bar>" and "\<bar>x\<bar> < 2 powi (e + 1)" and "- 1022 \<le> e" and "e < 1023"
    and "round_even (x / 2 powi (e - 52)) = n"
  shows "rnd64 x = Fin (of_int n * 2 powi (e - 52))"
proof -
  have r: "round_to 53 (- 1022) x = of_int n * 2 powi (e - 52)"
    using round_to_eval [OF assms(1,2), of 53 "- 1022"] assms(3,5) by (simp add: max_def)
  have "\<bar>round_to 53 (- 1022) x\<bar> \<le> 2 powi (e + 1)"
  proof -
    have rep: "representable 53 (- 1022) (2 powi (e + 1))"
      unfolding representable_def
      by (rule exI [of _ 1], rule exI [of _ "e + 1"]) (use assms(3) in simp)
    have "round_to 53 (- 1022) x \<le> 2 powi (e + 1)"
      using round_to_le [OF _ rep, of x] assms(2) by simp
    moreover have "- (2 powi (e + 1)) \<le> round_to 53 (- 1022) x"
      using round_to_ge [of 53 "- 1022" "- (2 powi (e + 1))" x] rep assms(2)
      by (simp add: representable_minus)
    ultimately show ?thesis by simp
  qed
  also have "\<dots> < (2::real) powi 1024" using assms(4) by (simp only: two_powi_less_iff)
  finally show ?thesis unfolding rnd64_def rnd_def r [symmetric] by simp
qed

lemma t_max_2: "t_max (Fin 2) = Fin 4"
  using d_mul_exact [of 2 2] by (simp add: t_max_def)

lemma step_size_2: "step_size (Fin 2) = Fin (1152921504606847 / 144115188075855872)"
proof -
  have "round_even ((1 / 125) / 2 powi (- 7 - 52)) = 4611686018427388"
    by (rule round_even_eval) (simp_all add: power_int_minus)
  from rnd64_eval [of "- 7" "1 / 125", OF _ _ _ _ this]
  have "rnd64 (1 / 125) = Fin (1152921504606847 / 144115188075855872)"
    by (simp add: power_int_minus)
  then show ?thesis
    by (simp add: step_size_def t_max_2 d_of_int_def step_count_def)
qed


lemma is_double_step: "is_double (1152921504606847 / 144115188075855872)"
  using is_double_dyadic [of 1152921504606847 57] by simp

lemma sample_t_2_zero: "sample_t (Fin 2) 0 = Fin 0"
  by (simp add: sample_t_def step_size_2 d_of_int_def)

lemma sample_t_2_low:
  assumes "1 \<le> j" and "j \<le> 249"
  shows "\<exists>t. sample_t (Fin 2) j = Fin t \<and> 1 / 128 \<le> t \<and> t \<le> 255 / 128 \<and> is_double t"
proof -
  have a: "is_double (1 / 128)" using is_double_dyadic [of 1 7] by simp
  have b: "is_double (255 / 128)" using is_double_dyadic [of 255 7] by simp
  have "1 \<le> real_of_int j" and "real_of_int j \<le> 249" using assms by simp_all
  then have "1 / 128 \<le> of_int j * (1152921504606847 / 144115188075855872 :: real)"
    and "of_int j * (1152921504606847 / 144115188075855872 :: real) \<le> 255 / 128"
    by simp_all
  from d_mul_between [OF a b this] show ?thesis
    by (simp add: sample_t_def step_size_2 d_of_int_def)
qed

lemma sample_t_2_high:
  assumes "250 \<le> j" and "j \<le> 499"
  shows "\<exists>t. sample_t (Fin 2) j = Fin t \<and> 2 \<le> t \<and> t \<le> 4 \<and> is_double t"
proof -
  have a: "is_double 2" and b: "is_double 4" by simp_all
  have "250 \<le> real_of_int j" and "real_of_int j \<le> 499" using assms by simp_all
  then have "2 \<le> of_int j * (1152921504606847 / 144115188075855872 :: real)"
    and "of_int j * (1152921504606847 / 144115188075855872 :: real) \<le> 4"
    by simp_all
  from d_mul_between [OF a b this] show ?thesis
    by (simp add: sample_t_def step_size_2 d_of_int_def)
qed

lemma current_point_probe:
  assumes "sample_t (Fin 2) j = Fin t" and "is_double t" and "is_double cx"
  shows "current_point (Vec3 (Fin cx) (Fin 0) (Fin 0)) (Vec3 (Fin 0) (Fin 0) (Fin (- 1))) (Fin 2) j =
         Vec3 (Fin cx) (Fin 0) (Fin (- t))"
  using assms by (simp add: current_point_def d_add_def rnd64_exact)

lemma grid_half_size_2: "grid_half_size (Fin 2) = Fin 1"
  using d_div_exact [of 2 2] by (simp add: grid_half_size_def)

lemma scaled_coordinate_2_between:
  assumes "is_double lo" and "is_double hi" and "is_double (lo / 2)" and "is_double (hi / 2)"
    and "lo \<le> c + 1" and "c + 1 \<le> hi"
  shows "\<exists>w. scaled_coordinate 2 (Fin 2) (Fin c) = Fin w \<and> lo \<le> w \<and> w \<le> hi"
proof -
  obtain v where v: "d_add (Fin c) (Fin 1) = Fin v" "lo \<le> v" "v \<le> hi"
    using d_add_between [OF assms(1,2,5,6)] by blast
  have "lo / 2 \<le> v / 2" and "v / 2 \<le> hi / 2" using v(2,3) by simp_all
  from d_div_between [OF assms(3,4) this]
  obtain h where h: "d_div (Fin v) (Fin 2) = Fin h" "lo / 2 \<le> h" "h \<le> hi / 2" by auto
  have "lo \<le> h * 2" and "h * 2 \<le> hi" using h(2,3) by simp_all
  from d_mul_between [OF assms(1,2) this]
  obtain w where w: "d_mul (Fin h) (Fin 2) = Fin w" "lo \<le> w" "w \<le> hi" by auto
  show ?thesis
    unfolding scaled_coordinate_def grid_half_size_2 v(1) h(1) d_of_int_def
    using w by auto
qed

lemma axis_index_2_between:
  assumes "is_double lo" and "is_double hi" and "is_double (lo / 2)" and "is_double (hi / 2)"
    and "lo \<le> c + 1" and "c + 1 \<le> hi"
  shows "\<exists>w. axis_index undef 2 (Fin 2) (Fin c) = static_cast_int undef (Fin w) \<and>
              lo \<le> w \<and> w \<le> hi"
  using scaled_coordinate_2_between [OF assms] unfolding axis_index_def by auto

lemma scaled_coordinate_2_beside: "scaled_coordinate 2 (Fin 2) (Fin (- 3 / 2)) = Fin (- 1 / 2)"
proof -
  have a: "is_double (- 1 / 2)" using is_double_dyadic [of "- 1" 1] by simp
  have b: "is_double (- 1 / 2 / 2)" using is_double_dyadic [of "- 1" 2] by simp
  from scaled_coordinate_2_between [of "- 1 / 2" "- 1 / 2" "- 3 / 2", OF a a b b]
  show ?thesis by auto
qed

lemma floor_self_Ints: "r = of_int \<lfloor>r\<rfloor> \<longleftrightarrow> r \<in> \<int>"
  by (metis Ints_of_int of_int_floor)

lemma trunc_eq_0_iff: "trunc r = 0 \<longleftrightarrow> - 1 < r \<and> r < 1"
  unfolding trunc_def by (auto simp: floor_eq_iff ceiling_eq_iff)

lemma trunc_floor_iff: "trunc r = \<lfloor>r\<rfloor> \<longleftrightarrow> 0 \<le> r \<or> r \<in> \<int>"
  unfolding trunc_def by (auto simp: ceiling_altdef floor_self_Ints)

lemma trunc_neg_frac: "r < 0 \<Longrightarrow> r \<notin> \<int> \<Longrightarrow> trunc r = \<lfloor>r\<rfloor> + 1"
  unfolding trunc_def by (simp add: ceiling_altdef floor_self_Ints)


lemma static_cast_int_small:
  "\<bar>r\<bar> < 2147483648 \<Longrightarrow> static_cast_int undef (Fin r) = trunc r"
  unfolding static_cast_int.simps INT_MIN_def INT_MAX_def trunc_def
  by (auto simp: floor_le_iff le_floor_iff ceiling_le_iff le_ceiling_iff)

lemma static_cast_int_one: "static_cast_int undef (Fin 1) = 1"
  by (simp add: static_cast_int_small trunc_def)

lemma axis_index_2_centre: "axis_index undef 2 (Fin 2) (Fin 0) = 1"
proof -
  have "is_double (1 / 2)" using is_double_dyadic [of 1 1] by simp
  from axis_index_2_between [of 1 1 0 undef, OF _ _ this this]
  obtain w where "axis_index undef 2 (Fin 2) (Fin 0) = static_cast_int undef (Fin w)" "w = 1"
    by auto
  then show ?thesis by (simp add: static_cast_int_one)
qed

lemma axis_index_2_beside: "axis_index undef 2 (Fin 2) (Fin (- 3 / 2)) = 0"
proof -
  have a: "is_double (- 1 / 2)" using is_double_dyadic [of "- 1" 1] by simp
  have b: "is_double (- 1 / 2 / 2)" using is_double_dyadic [of "- 1" 2] by simp
  from axis_index_2_between [of "- 1 / 2" "- 1 / 2" "- 3 / 2" undef, OF a a b b]
  obtain w where "axis_index undef 2 (Fin 2) (Fin (- 3 / 2)) = static_cast_int undef (Fin w)"
    "w = - 1 / 2"
    by auto
  then show ?thesis by (simp add: static_cast_int_small trunc_eq_0_iff)
qed

lemma axis_index_2_inner:
  assumes "1 / 128 \<le> t" and "t \<le> 255 / 128"
  shows "axis_index undef 2 (Fin 2) (Fin (- t)) = 0"
proof -
  have a: "is_double (- 127 / 128)" using is_double_dyadic [of "- 127" 7] by simp
  have b: "is_double (127 / 128)" using is_double_dyadic [of 127 7] by simp
  have c: "is_double (- 127 / 128 / 2)" using is_double_dyadic [of "- 127" 8] by simp
  have d: "is_double (127 / 128 / 2)" using is_double_dyadic [of 127 8] by simp
  have "- 127 / 128 \<le> - t + 1" and "- t + 1 \<le> 127 / 128" using assms by simp_all
  from axis_index_2_between [OF a b c d this, of undef]
  obtain w where "axis_index undef 2 (Fin 2) (Fin (- t)) = static_cast_int undef (Fin w)"
    "- 127 / 128 \<le> w" "w \<le> 127 / 128"
    by auto
  then show ?thesis by (simp add: static_cast_int_small trunc_eq_0_iff)
qed

lemma axis_index_2_past:
  assumes "2 \<le> t" and "t \<le> 4"
  shows "axis_index undef 2 (Fin 2) (Fin (- t)) < 0"
proof -
  have a: "is_double (- 3)" and b: "is_double (- 1)" by simp_all
  have c: "is_double (- 3 / 2)" using is_double_dyadic [of "- 3" 1] by simp
  have d: "is_double (- 1 / 2)" using is_double_dyadic [of "- 1" 1] by simp
  have "- 3 \<le> - t + 1" and "- t + 1 \<le> - 1" using assms by simp_all
  from axis_index_2_between [OF a b c d this, of undef]
  obtain w where w: "axis_index undef 2 (Fin 2) (Fin (- t)) = static_cast_int undef (Fin w)"
    "- 3 \<le> w" "w \<le> - 1"
    by auto
  have "static_cast_int undef (Fin w) = trunc w" using w(2,3) by (intro static_cast_int_small) simp
  moreover have "trunc w \<le> - 1" using w(3) unfolding trunc_def by (simp add: ceiling_le_iff)
  ultimately show ?thesis unfolding w(1) by simp
qed

text \<open>
  The ray down the z axis from \<open>(cx, 0, 0)\<close> into the grid of \<open>2\<^sup>3\<close> voxels over
  \<open>[-1, 1]\<^sup>3\<close>: the y index of every sample is 1, and the z index is 1 for sample 0,
  0 for the samples 1 to 249 and negative from sample 250 on.
\<close>

lemma index_at_probe_first:
  assumes "is_double cx"
  shows "index_at undef (Vec3 (Fin cx) (Fin 0) (Fin 0)) (Vec3 (Fin 0) (Fin 0) (Fin (- 1))) 2 (Fin 2) 0 =
         (axis_index undef 2 (Fin 2) (Fin cx), 1, 1)"
  using current_point_probe [OF sample_t_2_zero _ assms]
  by (simp add: index_at_def voxel_index_def axis_index_2_centre)

lemma index_at_probe_inner:
  assumes "is_double cx" and "1 \<le> j" and "j \<le> 249"
  shows "index_at undef (Vec3 (Fin cx) (Fin 0) (Fin 0)) (Vec3 (Fin 0) (Fin 0) (Fin (- 1))) 2 (Fin 2) j =
         (axis_index undef 2 (Fin 2) (Fin cx), 1, 0)"
proof -
  obtain t where t: "sample_t (Fin 2) j = Fin t" "1 / 128 \<le> t" "t \<le> 255 / 128" "is_double t"
    using sample_t_2_low [OF assms(2,3)] by blast
  show ?thesis
    using current_point_probe [OF t(1) t(4) assms(1)] axis_index_2_inner [OF t(2,3)]
    by (simp add: index_at_def voxel_index_def axis_index_2_centre)
qed

lemma index_at_probe_past:
  assumes "is_double cx" and "250 \<le> j" and "j \<le> 499"
  shows "\<exists>iz. index_at undef (Vec3 (Fin cx) (Fin 0) (Fin 0)) (Vec3 (Fin 0) (Fin 0) (Fin (- 1)))
                2 (Fin 2) j = (axis_index undef 2 (Fin 2) (Fin cx), 1, iz) \<and> iz < 0"
proof -
  obtain t where t: "sample_t (Fin 2) j = Fin t" "2 \<le> t" "t \<le> 4" "is_double t"
    using sample_t_2_high [OF assms(2,3)] by blast
  show ?thesis
    using current_point_probe [OF t(1) t(4) assms(1)] axis_index_2_past [OF t(2,3)]
    by (simp add: index_at_def voxel_index_def axis_index_2_centre)
qed

lemma filter_upto_all: "(\<And>j. a \<le> j \<Longrightarrow> j \<le> b \<Longrightarrow> P j) \<Longrightarrow> filter P [a..b] = [a..b]"
  by (simp add: filter_id_conv)

lemma filter_upto_none: "(\<And>j. a \<le> j \<Longrightarrow> j \<le> b \<Longrightarrow> \<not> P j) \<Longrightarrow> filter P [a..b] = []"
  by (simp add: filter_empty_conv)

lemma steps_split_first: "[0..step_count - 1] = [0] @ [1..499]"
  using upto_rec1 [of 0 499] by (simp add: step_count_def del: upto_rec_numeral)

lemma steps_split_mid: "[1..499] = [1..249] @ [250..499]"
  using upto_split2 [of 1 249 499] by (simp del: upto_rec_numeral)

lemma hits_probe_one:
  assumes "is_double cx" and "axis_index undef 2 (Fin 2) (Fin cx) = ix" and "0 \<le> ix" and "ix < 2"
  shows "hits undef (Vec3 (Fin cx) (Fin 0) (Fin 0)) (Vec3 (Fin 0) (Fin 0) (Fin (- 1))) 2 (Fin 2) 0
           (ix, 1, 1) = 1"
proof -
  let ?P = "\<lambda>j. in_bounds 2 (ix, 1, 1) \<and>
     index_at undef (Vec3 (Fin cx) (Fin 0) (Fin 0)) (Vec3 (Fin 0) (Fin 0) (Fin (- 1))) 2 (Fin 2) j
       = (ix, 1, 1)"
  have "filter ?P [250..499] = []"
  proof (rule filter_upto_none)
    fix j :: int assume "250 \<le> j" and "j \<le> 499"
    from index_at_probe_past [OF assms(1) this, of undef] show "\<not> ?P j" by auto
  qed
  moreover have "filter ?P [1..249] = []"
    by (rule filter_upto_none) (simp add: index_at_probe_inner [OF assms(1)])
  moreover have "?P 0"
    using assms by (simp add: index_at_probe_first)
  ultimately show ?thesis
    unfolding hits_def steps_split_first steps_split_mid filter_append
    by (simp del: upto_rec_numeral)
qed

lemma hits_probe_zero:
  assumes "is_double cx" and "axis_index undef 2 (Fin 2) (Fin cx) = ix" and "0 \<le> ix" and "ix < 2"
  shows "hits undef (Vec3 (Fin cx) (Fin 0) (Fin 0)) (Vec3 (Fin 0) (Fin 0) (Fin (- 1))) 2 (Fin 2) 0
           (ix, 1, 0) = 249"
proof -
  let ?P = "\<lambda>j. in_bounds 2 (ix, 1, 0) \<and>
     index_at undef (Vec3 (Fin cx) (Fin 0) (Fin 0)) (Vec3 (Fin 0) (Fin 0) (Fin (- 1))) 2 (Fin 2) j
       = (ix, 1, 0)"
  have "filter ?P [250..499] = []"
  proof (rule filter_upto_none)
    fix j :: int assume "250 \<le> j" and "j \<le> 499"
    from index_at_probe_past [OF assms(1) this, of undef] show "\<not> ?P j" by auto
  qed
  moreover have "filter ?P [1..249] = [1..249]"
    by (rule filter_upto_all) (use assms in \<open>simp add: index_at_probe_inner\<close>)
  moreover have "\<not> ?P 0"
    by (simp add: index_at_probe_first [OF assms(1)])
  ultimately show ?thesis
    unfolding hits_def steps_split_first steps_split_mid filter_append
    by (simp del: upto_rec_numeral)
qed

section \<open>Events of the two calls, and repeated addition\<close>

lemma normalise_small:
  assumes "norm_of v = Fin n" and "n \<le> 1 / 10 ^ 6"
  shows "normalise v = v"
  using assms by (simp add: normalise_def Let_def)

lemma first_event_centre:
  "event_at x86_undef (Vec3 (Fin 0) (Fin 0) (Fin 0)) (ray_world_dir 50 50 100 100 (Fin 90))
     2 (Fin 2) 0 =
   Event (Fin 0) (Vec3 (Fin 0) (Fin 0) (Fin 0)) (1, 1, 1) True"
  using index_at_probe_first [of 0 x86_undef] current_point_probe [OF sample_t_2_zero, of 0]
  by (simp add: event_at_def ray_world_dir_centre sample_t_2_zero axis_index_2_centre)

lemma first_event_beside:
  "event_at undef (Vec3 (Fin (- 3 / 2)) (Fin 0) (Fin 0)) (ray_world_dir 50 50 100 100 (Fin 90))
     2 (Fin 2) 0 =
   Event (Fin 0) (Vec3 (Fin (- 3 / 2)) (Fin 0) (Fin 0)) (0, 1, 1) True"
proof -
  have d: "is_double (- 3 / 2)" using is_double_dyadic [of "- 3" 1] by simp
  have z: "is_double 0" by simp
  show ?thesis
    unfolding event_at_def ray_world_dir_centre sample_t_2_zero
      index_at_probe_first [OF d] current_point_probe [OF sample_t_2_zero z d]
      axis_index_2_beside
    by simp
qed

lemma beside_event_in_trace:
  "Event (Fin 0) (Vec3 (Fin (- 3 / 2)) (Fin 0) (Fin 0)) (0, 1, 1) True
     \<in> set (trace (project_ray_to_voxels undef g 50 50 (Fin (- 3 / 2)) (Fin 0) (Fin 0)
                     100 100 (Fin 90) 2 (Fin 2) brightness))"
proof -
  have "(0::int) \<le> 0" and "(0::int) < 500" by simp_all
  from event_in_trace [OF this, of undef "Fin (- 3 / 2)" "Fin 0" "Fin 0" 50 50 100 100 "Fin 90"
      2 "Fin 2" g brightness]
  show ?thesis unfolding first_event_beside .
qed

lemma f_add_pow_exact:
  assumes "\<And>j. 1 \<le> j \<Longrightarrow> j \<le> k \<Longrightarrow> is_float (v + of_nat j * b)"
  shows "((\<lambda>x. f_add x (Fin b)) ^^ k) (Fin v) = Fin (v + of_nat k * b)"
  using assms
proof (induction k)
  case 0
  show ?case by simp
next
  case (Suc k)
  have "((\<lambda>x. f_add x (Fin b)) ^^ k) (Fin v) = Fin (v + of_nat k * b)"
    by (rule Suc.IH) (simp add: Suc.prems)
  moreover have "is_float (v + of_nat k * b + b)"
    using Suc.prems [of "Suc k"] by (simp add: algebra_simps)
  ultimately show ?case by (simp add: f_add_exact algebra_simps)
qed

lemma f_add_pow_one:
  assumes "k < 2 ^ 24"
  shows "((\<lambda>x. f_add x (Fin 1)) ^^ k) (Fin 0) = Fin (of_nat k)"
proof -
  have "is_float (0 + of_nat j * 1)" if "j \<le> k" for j
  proof -
    have "\<bar>int j\<bar> < 2 ^ 24" using that assms by simp
    from is_float_int [OF this] show ?thesis by simp
  qed
  from f_add_pow_exact [of k 0 1, OF this] show ?thesis by simp
qed

lemma map_const_upto:
  assumes "\<And>i. 0 \<le> i \<Longrightarrow> i \<le> 499 \<Longrightarrow> f i = c"
  shows "map f [0..499] = replicate 500 c"
proof -
  have "map f [0..499] = map (\<lambda>i. c) [0..499]"
    by (rule map_cong) (use assms in \<open>simp_all del: upto_rec_numeral\<close>)
  then show ?thesis
    using map_replicate_const [of c "[0..499]"] by (simp del: upto_rec_numeral)
qed

lemma sample_t_2_Fin:
  assumes "0 \<le> j" and "j \<le> 499"
  shows "\<exists>t. sample_t (Fin 2) j = Fin t \<and> is_double t"
proof -
  consider "j = 0" | "1 \<le> j" "j \<le> 249" | "250 \<le> j" "j \<le> 499" using assms by linarith
  then show ?thesis
  proof cases
    case 1 then show ?thesis by (simp add: sample_t_2_zero)
  next
    case 2 from sample_t_2_low [OF this] show ?thesis by blast
  next
    case 3 from sample_t_2_high [OF this] show ?thesis by blast
  qed
qed

lemma event_index_axes:
  assumes "e \<in> set (trace (project_ray_to_voxels undef g p_x p_y cam_pos_x cam_pos_y cam_pos_z
                         img_w img_h fov_degrees grid_size grid_world_size brightness))"
  shows "ev_index e =
     (axis_index undef grid_size grid_world_size (vec_x (ev_point e)),
      axis_index undef grid_size grid_world_size (vec_y (ev_point e)),
      axis_index undef grid_size grid_world_size (vec_z (ev_point e)))"
  using assms by (auto simp: trace_project event_at_def index_at_def voxel_index_def)

lemma axis_index_cases:
  "axis_index undef grid_size grid_world_size c =
     (case scaled_coordinate grid_size grid_world_size c of
        Fin y \<Rightarrow> if INT_MIN \<le> trunc y \<and> trunc y \<le> INT_MAX then trunc y else undef (Fin y)
      | PInf \<Rightarrow> undef PInf
      | NInf \<Rightarrow> undef NInf
      | NaN \<Rightarrow> undef NaN)"
  unfolding axis_index_def
  by (cases "scaled_coordinate grid_size grid_world_size c") (simp_all add: static_cast_int.simps)

lemma half_not_int: "(- 1 / 2 :: real) \<notin> \<int>"
proof
  assume "(- 1 / 2 :: real) \<in> \<int>"
  then obtain k :: int where "(- 1 / 2 :: real) = of_int k" by (auto elim: Ints_cases)
  then have "real_of_int (2 * k) = real_of_int (- 1)" by simp
  then have "2 * k = - 1" by (simp only: of_int_eq_iff)
  then show False by presburger
qed

lemma round_even_tie:
  assumes "q = of_int n + 1 / 2"
  shows "round_even q = (if even n then n else n + 1)"
proof -
  have "\<lfloor>q\<rfloor> = n" unfolding assms by (simp add: floor_eq_iff)
  then show ?thesis unfolding round_even_def by (simp add: assms)
qed

lemma rnd32_eval:
  assumes "2 powi e \<le> \<bar>x\<bar>" and "\<bar>x\<bar> < 2 powi (e + 1)" and "- 126 \<le> e" and "e < 127"
    and "round_even (x / 2 powi (e - 23)) = n"
  shows "rnd32 x = Fin (of_int n * 2 powi (e - 23))"
proof -
  have r: "round_to 24 (- 126) x = of_int n * 2 powi (e - 23)"
    using round_to_eval [OF assms(1,2), of 24 "- 126"] assms(3,5) by (simp add: max_def)
  have "\<bar>round_to 24 (- 126) x\<bar> \<le> 2 powi (e + 1)"
  proof -
    have rep: "representable 24 (- 126) (2 powi (e + 1))"
      unfolding representable_def
      by (rule exI [of _ 1], rule exI [of _ "e + 1"]) (use assms(3) in simp)
    have "round_to 24 (- 126) x \<le> 2 powi (e + 1)"
      using round_to_le [OF _ rep, of x] assms(2) by simp
    moreover have "- (2 powi (e + 1)) \<le> round_to 24 (- 126) x"
      using round_to_ge [of 24 "- 126" "- (2 powi (e + 1))" x] rep assms(2)
      by (simp add: representable_minus)
    ultimately show ?thesis by simp
  qed
  also have "\<dots> < (2::real) powi 128" using assms(4) by (simp only: two_powi_less_iff)
  finally show ?thesis unfolding rnd32_def rnd_def r [symmetric] by simp
qed

text \<open>Adding a non-negative brightness to a \<^verbatim>\<open>float\<close> does not decrease it.\<close>

lemma f_add_ge:
  assumes "is_float v" and "0 \<le> b"
  shows "f_add (Fin v) (Fin b) = PInf \<or> (\<exists>y. f_add (Fin v) (Fin b) = Fin y \<and> v \<le> y \<and> is_float y)"
proof -
  define y where "y = round_to 24 (- 126) (v + b)"
  have rep: "representable 24 (- 126) v" and lt: "\<bar>v\<bar> < 2 powi 128"
    using assms(1) unfolding is_float_def by simp_all
  have vy: "v \<le> y" unfolding y_def using round_to_ge [OF _ rep, of "v + b"] assms(2) by simp
  have r: "f_add (Fin v) (Fin b) =
      (if 2 powi 128 \<le> \<bar>y\<bar> then (if 0 < y then PInf else NInf) else Fin y)"
    unfolding f_add_def rnd32_def rnd_def Let_def y_def by simp
  show ?thesis
  proof (cases "2 powi 128 \<le> \<bar>y\<bar>")
    case True
    then have "0 < y" using vy lt by linarith
    then have "f_add (Fin v) (Fin b) = PInf"
      using True unfolding r by simp
    then show ?thesis ..
  next
    case False
    then have e: "f_add (Fin v) (Fin b) = Fin y"
      unfolding r by simp
    then have "rnd32 (v + b) = Fin y" by (simp add: f_add_def)
    then have "is_float y" by (rule rnd32_Fin)
    with e vy show ?thesis by blast
  qed
qed

lemma not_decrease_step:
  assumes "d_ge b (Fin 0)"
    and "d = PInf \<or> (\<exists>y. d = Fin y \<and> v \<le> y \<and> is_float y)"
  shows "f_add d b = PInf \<or> (\<exists>y. f_add d b = Fin y \<and> v \<le> y \<and> is_float y)"
proof (cases b)
  case (Fin b')
  then have b0: "0 \<le> b'" using assms(1) by simp
  from assms(2) show ?thesis
  proof
    assume "d = PInf" then show ?thesis by (simp add: Fin f_add_def)
  next
    assume "\<exists>y. d = Fin y \<and> v \<le> y \<and> is_float y"
    then obtain y where y: "d = Fin y" "v \<le> y" "is_float y" by blast
    from f_add_ge [OF y(3) b0] y(2) show ?thesis unfolding y(1) Fin by force
  qed
next
  case PInf
  from assms(2) show ?thesis by (auto simp: PInf f_add_def)
next
  case NInf
  then show ?thesis using assms(1) by simp
next
  case NaN
  then show ?thesis using assms(1) by simp
qed

lemma not_decrease_pow_Fin:
  assumes "d_ge b (Fin 0)" and "is_float v"
  shows "((\<lambda>x. f_add x b) ^^ k) (Fin v) = PInf \<or>
         (\<exists>y. ((\<lambda>x. f_add x b) ^^ k) (Fin v) = Fin y \<and> v \<le> y \<and> is_float y)"
proof (induction k)
  case 0
  show ?case using assms(2) by simp
next
  case (Suc k)
  from not_decrease_step [OF assms(1) Suc] show ?case by simp
qed

lemma f_add_pow_PInf:
  assumes "d_ge b (Fin 0)"
  shows "((\<lambda>x. f_add x b) ^^ k) PInf = PInf"
proof (induction k)
  case 0 show ?case by simp
next
  case (Suc k)
  then show ?case using assms by (cases b) (simp_all add: f_add_def)
qed

lemma not_decrease_pow:
  assumes "d_ge b (Fin 0)" and "\<And>v. d = Fin v \<Longrightarrow> is_float v"
  shows "\<not> d_gt d (((\<lambda>x. f_add x b) ^^ k) d)"
proof (cases d)
  case (Fin v)
  from not_decrease_pow_Fin [OF assms(1) assms(2) [OF Fin], of k]
  show ?thesis unfolding Fin by auto
next
  case PInf
  then show ?thesis by (simp add: f_add_pow_PInf [OF assms(1)])
next
  case NInf
  then show ?thesis by (cases "((\<lambda>x. f_add x b) ^^ k) NInf") simp_all
next
  case NaN
  then show ?thesis by simp
qed

lemma rnd32_16777219: "rnd32 16777219 = Fin 16777220"
proof -
  have "round_even (16777219 / 2 powi (24 - 23)) = (if even (8388609::int) then 8388609 else 8388609 + 1)"
    by (rule round_even_tie) simp
  then have "round_even (16777219 / 2 powi (24 - 23)) = 8388610" by simp
  from rnd32_eval [of 24 16777219, OF _ _ _ _ this] show ?thesis by simp
qed

lemma hits_origin_one:
  "hits undef (Vec3 (Fin 0) (Fin 0) (Fin 0)) (Vec3 (Fin 0) (Fin 0) (Fin (- 1))) 2 (Fin 2) 0
     (1, 1, 1) = 1"
  by (rule hits_probe_one) (simp_all add: axis_index_2_centre)

lemma hits_origin_many:
  "hits undef (Vec3 (Fin 0) (Fin 0) (Fin 0)) (Vec3 (Fin 0) (Fin 0) (Fin (- 1))) 2 (Fin 2) 0
     (1, 1, 0) = 249"
  by (rule hits_probe_zero) (simp_all add: axis_index_2_centre)

lemma hits_eq_length:
  "length (filter
     (\<lambda>i. in_bounds grid_size idx \<and>
          voxel_index undef grid_size grid_world_size
            (current_point ray_origin dir grid_world_size i) = idx)
     [0..499]) = hits undef ray_origin dir grid_size grid_world_size 0 idx"
  by (simp add: hits_def index_at_def step_count_def del: upto_rec_numeral)

lemma is_float_even: "\<bar>n\<bar> < 2 ^ 24 \<Longrightarrow> is_float (of_int (2 * n))"
proof -
  assume n: "\<bar>n\<bar> < 2 ^ 24"
  have "representable 24 (- 126) (of_int n * 2 powi 1)"
    unfolding representable_def by (rule exI [of _ n], rule exI [of _ 1]) (use n in simp)
  moreover have "\<bar>real_of_int n\<bar> < 2 ^ 24" using n by (metis of_int_abs of_int_less_numeral_power_cancel_iff)
  then have "\<bar>real_of_int n * 2\<bar> < 2 powi 128" by (simp add: abs_mult)
  ultimately show ?thesis unfolding is_float_def by (simp add: mult.commute)
qed

text \<open>
  Adding the odd brightness 67377 to a multiple of 4 between \<open>2\<^sup>2\<^sup>4\<close> and \<open>2\<^sup>2\<^sup>5\<close>: the
  sum is odd, half way between two numbers of the format, and rounds down to the
  multiple of 4.
\<close>

lemma f_add_67377_down:
  assumes "2 ^ 24 \<le> 4 * a + 67377" and "4 * a + 67377 < (2 ^ 25 :: int)"
  shows "f_add (Fin (of_int (4 * a))) (Fin 67377) = Fin (of_int (4 * a + 67376))"
proof -
  define x :: real where "x = of_int (4 * a + 67377)"
  have lo: "2 powi 24 \<le> \<bar>x\<bar>"
  proof -
    have "real_of_int (2 ^ 24) \<le> real_of_int (4 * a + 67377)" using assms(1) by (simp only: of_int_le_iff)
    then show ?thesis unfolding x_def by simp
  qed
  have hi: "\<bar>x\<bar> < 2 powi (24 + 1)"
  proof -
    have "real_of_int (4 * a + 67377) < real_of_int (2 ^ 25)" using assms(2) by (simp only: of_int_less_iff)
    moreover have "0 \<le> real_of_int (4 * a + 67377)" using assms(1) by simp
    ultimately show ?thesis unfolding x_def by simp
  qed
  have "round_even (x / 2 powi (24 - 23)) =
      (if even (2 * a + 33688) then 2 * a + 33688 else 2 * a + 33688 + 1)"
    by (rule round_even_tie) (simp add: x_def)
  then have "round_even (x / 2 powi (24 - 23)) = 2 * a + 33688" by simp
  from rnd32_eval [OF lo hi _ _ this]
  have "rnd32 x = Fin (of_int (4 * a + 67376))" by simp
  then show ?thesis by (simp add: f_add_def x_def)
qed

lemma f_add_67377_pow:
  assumes "2 ^ 24 \<le> 4 * a + 67377" and "4 * a + int n * 67376 + 1 < 2 ^ 25"
  shows "((\<lambda>x. f_add x (Fin 67377)) ^^ n) (Fin (of_int (4 * a))) =
         Fin (of_int (4 * a + int n * 67376))"
  using assms(2)
proof (induction n)
  case 0
  show ?case by simp
next
  case (Suc n)
  have IH: "((\<lambda>x. f_add x (Fin 67377)) ^^ n) (Fin (of_int (4 * a))) =
         Fin (of_int (4 * a + int n * 67376))"
    using Suc.prems by (intro Suc.IH) simp
  have e: "4 * a + int n * 67376 = 4 * (a + int n * 16844)" by simp
  have "f_add (Fin (of_int (4 * (a + int n * 16844)))) (Fin 67377) =
      Fin (of_int (4 * (a + int n * 16844) + 67376))"
    using assms(1) Suc.prems by (intro f_add_67377_down) simp_all
  then show ?case unfolding funpow.simps o_apply IH e by (simp add: algebra_simps)
qed

lemma sum_67377_first: "((\<lambda>x. f_add x (Fin 67377)) ^^ 249) (Fin 0) = Fin 16776873"
proof -
  have "is_float (0 + of_nat j * 67377)" if "j \<le> 249" for j :: nat
  proof -
    have "int j * 67377 \<le> 249 * 67377" using that by simp
    then have "\<bar>int j * 67377\<bar> < 2 ^ 24" by simp
    from is_float_int [OF this] show ?thesis by simp
  qed
  from f_add_pow_exact [of 249 0 67377, OF this] show ?thesis by simp
qed

lemma sum_67377_second: "((\<lambda>x. f_add x (Fin 67377)) ^^ 498) (Fin 0) = Fin 33553500"
proof -
  let ?f = "\<lambda>x. f_add x (Fin 67377)"
  have a: "?f (Fin 16776873) = Fin 16844250"
    using f_add_exact [of 16776873 67377] is_float_even [of 8422125] by simp
  have "round_even (16911627 / 2 powi (24 - 23)) =
      (if even (8455813::int) then 8455813 else 8455813 + 1)"
    by (rule round_even_tie) simp
  then have "round_even (16911627 / 2 powi (24 - 23)) = 8455814" by simp
  from rnd32_eval [of 24 16911627, OF _ _ _ _ this]
  have "rnd32 16911627 = Fin 16911628" by simp
  then have b: "?f (Fin 16844250) = Fin 16911628" by (simp add: f_add_def)
  have c: "(?f ^^ 247) (Fin (of_int (4 * 4227907))) = Fin (of_int (4 * 4227907 + int 247 * 67376))"
    by (rule f_add_67377_pow) simp_all
  have "(498::nat) = 247 + Suc (Suc 249)" by simp
  then have "(?f ^^ 498) (Fin 0) = (?f ^^ 247) (?f (?f ((?f ^^ 249) (Fin 0))))"
    by (simp only: funpow_add funpow.simps o_apply)
  also have "\<dots> = (?f ^^ 247) (Fin 16911628)" unfolding sum_67377_first a b ..
  also have "\<dots> = Fin 33553500" using c by simp
  finally show ?thesis .
qed


















section \<open>Properties of the kernel\<close>

text \<open>
  C1. In every call, for every grid size and whatever the platform returns for an
  undefined conversion, each iteration that writes does so at indices \<open>(ix, iy, iz)\<close> with
  \<open>0 \<le> ix, iy, iz < grid_size\<close>; and a voxel whose indices are not all in that range
  holds after the call the value it held before. The hypothesis \<open>grid_size > 0\<close> of the
  claim is not needed: for \<open>grid_size \<le> 0\<close> no iteration writes.
\<close>

theorem writes_in_bounds:
  "(\<forall>e \<in> set (trace (project_ray_to_voxels undef g p_x p_y cam_pos_x cam_pos_y cam_pos_z
                         img_w img_h fov_degrees grid_size grid_world_size brightness)).
      ev_written e \<longrightarrow>
      (case ev_index e of (ix, iy, iz) \<Rightarrow>
         0 \<le> ix \<and> ix < grid_size \<and> 0 \<le> iy \<and> iy < grid_size \<and> 0 \<le> iz \<and> iz < grid_size)) \<and>
   (\<forall>ix iy iz.
      \<not> (0 \<le> ix \<and> ix < grid_size \<and> 0 \<le> iy \<and> iy < grid_size \<and> 0 \<le> iz \<and> iz < grid_size) \<longrightarrow>
      voxel_grid (project_ray_to_voxels undef g p_x p_y cam_pos_x cam_pos_y cam_pos_z
                    img_w img_h fov_degrees grid_size grid_world_size brightness) (ix, iy, iz) =
      g (ix, iy, iz))"
proof (intro conjI ballI allI impI)
  fix e
  assume "e \<in> set (trace (project_ray_to_voxels undef g p_x p_y cam_pos_x cam_pos_y cam_pos_z
                         img_w img_h fov_degrees grid_size grid_world_size brightness))"
    and "ev_written e"
  then have "in_bounds grid_size (ev_index e)"
    by (auto simp: trace_project event_at_def)
  then show "case ev_index e of (ix, iy, iz) \<Rightarrow>
         0 \<le> ix \<and> ix < grid_size \<and> 0 \<le> iy \<and> iy < grid_size \<and> 0 \<le> iz \<and> iz < grid_size"
    by (cases "ev_index e") auto
next
  fix ix iy iz
  assume "\<not> (0 \<le> ix \<and> ix < grid_size \<and> 0 \<le> iy \<and> iy < grid_size \<and> 0 \<le> iz \<and> iz < grid_size)"
  then have "\<not> in_bounds grid_size (ix, iy, iz)" by simp
  then have "hits undef (Vec3 cam_pos_x cam_pos_y cam_pos_z)
        (ray_world_dir p_x p_y img_w img_h fov_degrees) grid_size grid_world_size 0
        (ix, iy, iz) = 0"
    unfolding hits_def by (simp del: in_bounds.simps)
  then show "voxel_grid (project_ray_to_voxels undef g p_x p_y cam_pos_x cam_pos_y cam_pos_z
                    img_w img_h fov_degrees grid_size grid_world_size brightness) (ix, iy, iz) =
      g (ix, iy, iz)"
    by (simp add: grid_project)
qed

text \<open>
  The call from the origin through the principal point into a grid of \<open>2\<^sup>3\<close> voxels over
  the cube \<open>[-1, 1]\<^sup>3\<close>: its first iteration writes voxel \<open>(1, 1, 1)\<close>, and voxel
  \<open>(2, 0, 0)\<close>, which is out of range, keeps its value.
\<close>

theorem writes_in_bounds_witness:
  "Event (Fin 0) (Vec3 (Fin 0) (Fin 0) (Fin 0)) (1, 1, 1) True
     \<in> set (trace (project_ray_to_voxels x86_undef zero_grid 50 50 (Fin 0) (Fin 0) (Fin 0)
                     100 100 (Fin 90) 2 (Fin 2) (Fin 1))) \<and>
   ev_written (Event (Fin 0) (Vec3 (Fin 0) (Fin 0) (Fin 0)) (1, 1, 1) True) \<and>
   (case ev_index (Event (Fin 0) (Vec3 (Fin 0) (Fin 0) (Fin 0)) (1, 1, 1) True) of
      (ix, iy, iz) \<Rightarrow> 0 \<le> ix \<and> ix < 2 \<and> 0 \<le> iy \<and> iy < 2 \<and> 0 \<le> iz \<and> iz < (2::int)) \<and>
   \<not> (0 \<le> (2::int) \<and> (2::int) < 2 \<and> 0 \<le> (0::int) \<and> (0::int) < 2 \<and> 0 \<le> (0::int) \<and> (0::int) < 2) \<and>
   voxel_grid (project_ray_to_voxels x86_undef zero_grid 50 50 (Fin 0) (Fin 0) (Fin 0)
                 100 100 (Fin 90) 2 (Fin 2) (Fin 1)) (2, 0, 0) = zero_grid (2, 0, 0)"
proof -
  let ?s = "project_ray_to_voxels x86_undef zero_grid 50 50 (Fin 0) (Fin 0) (Fin 0)
              100 100 (Fin 90) 2 (Fin 2) (Fin 1)"
  let ?e = "Event (Fin 0) (Vec3 (Fin 0) (Fin 0) (Fin 0)) (1, 1, 1) True"
  note th = writes_in_bounds [of x86_undef zero_grid 50 50 "Fin 0" "Fin 0" "Fin 0"
      100 100 "Fin 90" 2 "Fin 2" "Fin 1"]
  have mem: "?e \<in> set (trace ?s)"
    using event_in_trace [of 0 x86_undef "Fin 0" "Fin 0" "Fin 0" 50 50 100 100 "Fin 90"
        2 "Fin 2" zero_grid "Fin 1"]
    by (simp add: first_event_centre)
  have wr: "ev_written ?e" by simp
  have inb: "case ev_index ?e of
      (ix, iy, iz) \<Rightarrow> 0 \<le> ix \<and> ix < 2 \<and> 0 \<le> iy \<and> iy < 2 \<and> 0 \<le> iz \<and> iz < (2::int)"
    by (rule th [THEN conjunct1, THEN bspec, THEN mp, OF mem wr])
  have out: "\<not> (0 \<le> (2::int) \<and> (2::int) < 2 \<and> 0 \<le> (0::int) \<and> (0::int) < 2 \<and>
      0 \<le> (0::int) \<and> (0::int) < 2)"
    by simp
  have "voxel_grid ?s (2, 0, 0) = zero_grid (2, 0, 0)"
    by (rule th [THEN conjunct2, THEN spec, THEN spec, THEN spec, THEN mp, OF out])
  with mem wr inb out show ?thesis by (intro conjI)
qed

text \<open>
  C2 fails on the code. The camera at \<open>(-1.5, 0, 0)\<close> looks down the z axis past the
  cube \<open>[-1, 1]\<^sup>3\<close>, gridded into \<open>2\<^sup>3\<close> voxels: all 500 samples have \<open>x = -1.5\<close>, below
  \<open>-grid_world_size / 2 = -1\<close>, so every sample is outside the cube. The x index is the
  truncation of \<open>-0.5\<close>, which is 0 and passes the bounds check: from a zero grid the call
  leaves 1 in voxel \<open>(0, 1, 1)\<close> and 249 in voxel \<open>(0, 1, 0)\<close>.
\<close>

theorem outside_ray_modifies_grid:
  "map (\<lambda>i. vec_x (current_point (Vec3 (Fin (- 3 / 2)) (Fin 0) (Fin 0))
                     (ray_world_dir 50 50 100 100 (Fin 90)) (Fin 2) i)) [0..499] =
     replicate 500 (Fin (- 3 / 2)) \<and>
   d_neg (grid_half_size (Fin 2)) = Fin (- 1) \<and>
   d_gt (d_neg (grid_half_size (Fin 2))) (Fin (- 3 / 2)) \<and>
   zero_grid (0, 1, 1) = Fin 0 \<and>
   voxel_grid (project_ray_to_voxels x86_undef zero_grid 50 50 (Fin (- 3 / 2)) (Fin 0) (Fin 0)
                 100 100 (Fin 90) 2 (Fin 2) (Fin 1)) (0, 1, 1) = Fin 1 \<and>
   zero_grid (0, 1, 0) = Fin 0 \<and>
   voxel_grid (project_ray_to_voxels x86_undef zero_grid 50 50 (Fin (- 3 / 2)) (Fin 0) (Fin 0)
                 100 100 (Fin 90) 2 (Fin 2) (Fin 1)) (0, 1, 0) = Fin 249"
proof -
  have d: "is_double (- 3 / 2)" using is_double_dyadic [of "- 3" 1] by simp
  have x: "map (\<lambda>i. vec_x (current_point (Vec3 (Fin (- 3 / 2)) (Fin 0) (Fin 0))
                     (ray_world_dir 50 50 100 100 (Fin 90)) (Fin 2) i)) [0..499] =
     replicate 500 (Fin (- 3 / 2))"
  proof (rule map_const_upto)
    fix i :: int assume "0 \<le> i" and "i \<le> 499"
    from sample_t_2_Fin [OF this] obtain t where "sample_t (Fin 2) i = Fin t" "is_double t"
      by blast
    from current_point_probe [OF this d]
    show "vec_x (current_point (Vec3 (Fin (- 3 / 2)) (Fin 0) (Fin 0))
                     (ray_world_dir 50 50 100 100 (Fin 90)) (Fin 2) i) = Fin (- 3 / 2)"
      by (simp add: ray_world_dir_centre)
  qed
  have half: "d_neg (grid_half_size (Fin 2)) = Fin (- 1)"
    by (simp add: grid_half_size_2)
  have cast: "axis_index x86_undef 2 (Fin 2) (Fin (- 3 / 2)) = 0"
    by (rule axis_index_2_beside)
  have one: "voxel_grid (project_ray_to_voxels x86_undef zero_grid 50 50 (Fin (- 3 / 2)) (Fin 0) (Fin 0)
                 100 100 (Fin 90) 2 (Fin 2) (Fin 1)) (0, 1, 1) = Fin 1"
    using hits_probe_one [OF d cast] f_add_pow_one [of 1]
    by (simp add: grid_project ray_world_dir_centre zero_grid_def del: funpow.simps)
  have many: "voxel_grid (project_ray_to_voxels x86_undef zero_grid 50 50 (Fin (- 3 / 2)) (Fin 0) (Fin 0)
                 100 100 (Fin 90) 2 (Fin 2) (Fin 1)) (0, 1, 0) = Fin 249"
    using hits_probe_zero [OF d cast] f_add_pow_one [of 249]
    by (simp add: grid_project ray_world_dir_centre zero_grid_def del: funpow.simps)
  show ?thesis
    unfolding x half one many by (simp add: zero_grid_def)
qed

text \<open>
  C4. For a field of view of 90 degrees, an image of 100 by 100 pixels and the pixel
  \<open>(50, 50)\<close>, the normalised ray direction is exactly \<open>(0, 0, -1)\<close>.
\<close>

theorem principal_ray_direction:
  "ray_world_dir 50 50 100 100 (Fin 90) = Vec3 (Fin 0) (Fin 0) (Fin (- 1))"
  by (rule ray_world_dir_centre)


text \<open>
  C8. When the norm of the camera-space vector is at most \<open>10\<^sup>-\<^sup>6\<close> the direction is that
  vector, not normalised; the call is the march along it, and it runs its 500 iterations
  as any other call: the kernel has no failure branch and validates nothing.
\<close>

theorem degenerate_direction:
  assumes "norm_of (ray_cam p_x p_y img_w img_h fov_degrees) = Fin n" and "n \<le> 1 / 10 ^ 6"
  shows "ray_world_dir p_x p_y img_w img_h fov_degrees = ray_cam p_x p_y img_w img_h fov_degrees \<and>
    project_ray_to_voxels undef g p_x p_y cam_pos_x cam_pos_y cam_pos_z
      img_w img_h fov_degrees grid_size grid_world_size brightness =
    march_loop undef (Vec3 cam_pos_x cam_pos_y cam_pos_z)
      (ray_cam p_x p_y img_w img_h fov_degrees) grid_size grid_world_size brightness 0
      \<lparr>voxel_grid = g, trace = []\<rparr> \<and>
    length (trace (project_ray_to_voxels undef g p_x p_y cam_pos_x cam_pos_y cam_pos_z
      img_w img_h fov_degrees grid_size grid_world_size brightness)) = 500"
proof -
  have "ray_world_dir p_x p_y img_w img_h fov_degrees = ray_cam p_x p_y img_w img_h fov_degrees"
    unfolding ray_world_dir_def using assms by (rule normalise_small)
  then show ?thesis
    by (simp add: project_ray_to_voxels_def Let_def trace_march_loop step_count_def)
qed

text \<open>An image of width and height 0: the camera-space vector is the null vector.\<close>

theorem degenerate_direction_witness:
  "norm_of (ray_cam 0 0 0 0 (Fin 90)) = Fin 0 \<and> (0::real) \<le> 1 / 10 ^ 6 \<and>
   ray_world_dir 0 0 0 0 (Fin 90) = Vec3 (Fin 0) (Fin 0) (Fin 0) \<and>
   length (trace (project_ray_to_voxels x86_undef zero_grid 0 0 (Fin 0) (Fin 0) (Fin 0)
      0 0 (Fin 90) 2 (Fin 2) (Fin 1))) = 500"
proof -
  have le: "(0::real) \<le> 1 / 10 ^ 6" by simp
  note th = degenerate_direction [OF norm_of_ray_cam_zero le, of x86_undef zero_grid
      "Fin 0" "Fin 0" "Fin 0" 2 "Fin 2" "Fin 1"]
  have a: "ray_world_dir 0 0 0 0 (Fin 90) = Vec3 (Fin 0) (Fin 0) (Fin 0)"
    using th [THEN conjunct1] by (simp only: ray_cam_zero)
  have b: "length (trace (project_ray_to_voxels x86_undef zero_grid 0 0
      (Fin 0) (Fin 0) (Fin 0) 0 0 (Fin 90) 2 (Fin 2) (Fin 1))) = 500"
    by (rule th [THEN conjunct2, THEN conjunct2])
  from norm_of_ray_cam_zero le a b show ?thesis by (intro conjI)
qed

text \<open>
  C3, as amended. The indices of every sample are the conversions of the three
  coordinates of the sampled point. The conversion of a coordinate takes the \<^verbatim>\<open>double\<close>
  that the code computes, \<^verbatim>\<open>((coordinate + grid_world_size / 2) / grid_world_size) * grid_size\<close>
  with each operation rounded, and converts it with \<^verbatim>\<open>static_cast<int>\<close>: when that
  \<^verbatim>\<open>double\<close> is finite and its truncation toward zero is an \<^verbatim>\<open>int\<close>, the index is that
  truncation; in every other case the conversion is undefined and the index is whatever
  the platform returns. Truncation is the floor exactly for the values that are
  non-negative or integers; for the others it is the floor plus 1.
\<close>

theorem index_is_truncation:
  "(\<forall>e \<in> set (trace (project_ray_to_voxels undef g p_x p_y cam_pos_x cam_pos_y cam_pos_z
                         img_w img_h fov_degrees grid_size grid_world_size brightness)).
      ev_index e =
        (axis_index undef grid_size grid_world_size (vec_x (ev_point e)),
         axis_index undef grid_size grid_world_size (vec_y (ev_point e)),
         axis_index undef grid_size grid_world_size (vec_z (ev_point e)))) \<and>
   (\<forall>c. axis_index undef grid_size grid_world_size c =
      (case d_mul (d_div (d_add c (d_div grid_world_size (Fin 2))) grid_world_size)
                  (d_of_int grid_size) of
         Fin y \<Rightarrow> if INT_MIN \<le> trunc y \<and> trunc y \<le> INT_MAX then trunc y else undef (Fin y)
       | PInf \<Rightarrow> undef PInf
       | NInf \<Rightarrow> undef NInf
       | NaN \<Rightarrow> undef NaN)) \<and>
   (\<forall>r. (trunc r = \<lfloor>r\<rfloor> \<longleftrightarrow> 0 \<le> r \<or> r \<in> \<int>) \<and>
        (r < 0 \<and> r \<notin> \<int> \<longrightarrow> trunc r = \<lfloor>r\<rfloor> + 1))"
proof (intro conjI ballI allI impI)
  fix e
  assume "e \<in> set (trace (project_ray_to_voxels undef g p_x p_y cam_pos_x cam_pos_y cam_pos_z
                         img_w img_h fov_degrees grid_size grid_world_size brightness))"
  then show "ev_index e =
        (axis_index undef grid_size grid_world_size (vec_x (ev_point e)),
         axis_index undef grid_size grid_world_size (vec_y (ev_point e)),
         axis_index undef grid_size grid_world_size (vec_z (ev_point e)))"
    by (rule event_index_axes)
next
  fix c
  show "axis_index undef grid_size grid_world_size c =
      (case d_mul (d_div (d_add c (d_div grid_world_size (Fin 2))) grid_world_size)
                  (d_of_int grid_size) of
         Fin y \<Rightarrow> if INT_MIN \<le> trunc y \<and> trunc y \<le> INT_MAX then trunc y else undef (Fin y)
       | PInf \<Rightarrow> undef PInf
       | NInf \<Rightarrow> undef NInf
       | NaN \<Rightarrow> undef NaN)"
    unfolding axis_index_cases scaled_coordinate_def grid_half_size_def ..
next
  fix r :: real
  show "trunc r = \<lfloor>r\<rfloor> \<longleftrightarrow> 0 \<le> r \<or> r \<in> \<int>" by (rule trunc_floor_iff)
next
  fix r :: real
  assume "r < 0 \<and> r \<notin> \<int>"
  then show "trunc r = \<lfloor>r\<rfloor> + 1" by (simp add: trunc_neg_frac)
qed

text \<open>
  The first sample of the call with the camera at \<open>(-1.5, 0, 0)\<close> and the grid of \<open>2\<^sup>3\<close>
  voxels over \<open>[-1, 1]\<^sup>3\<close>: from the x coordinate \<open>-1.5\<close> the code computes \<open>-0.5\<close>, which is
  negative and no integer, and its index is 0.
\<close>

theorem index_is_truncation_witness:
  "Event (Fin 0) (Vec3 (Fin (- 3 / 2)) (Fin 0) (Fin 0)) (0, 1, 1) True
     \<in> set (trace (project_ray_to_voxels x86_undef zero_grid 50 50 (Fin (- 3 / 2)) (Fin 0) (Fin 0)
                     100 100 (Fin 90) 2 (Fin 2) (Fin 1))) \<and>
   (0, 1, 1) = (axis_index x86_undef 2 (Fin 2) (Fin (- 3 / 2)),
                axis_index x86_undef 2 (Fin 2) (Fin 0), axis_index x86_undef 2 (Fin 2) (Fin 0)) \<and>
   d_mul (d_div (d_add (Fin (- 3 / 2)) (d_div (Fin 2) (Fin 2))) (Fin 2)) (d_of_int 2) =
     Fin (- 1 / 2) \<and>
   axis_index x86_undef 2 (Fin 2) (Fin (- 3 / 2)) = trunc (- 1 / 2) \<and>
   (- 1 / 2 :: real) < 0 \<and> (- 1 / 2 :: real) \<notin> \<int> \<and> trunc (- 1 / 2) = \<lfloor>- 1 / 2 :: real\<rfloor> + 1"
proof -
  let ?e = "Event (Fin 0) (Vec3 (Fin (- 3 / 2)) (Fin 0) (Fin 0)) (0, 1, 1) True"
  note th = index_is_truncation [of x86_undef zero_grid 50 50 "Fin (- 3 / 2)" "Fin 0" "Fin 0"
      100 100 "Fin 90" 2 "Fin 2" "Fin 1"]
  have mem: "?e \<in> set (trace (project_ray_to_voxels x86_undef zero_grid 50 50 (Fin (- 3 / 2))
      (Fin 0) (Fin 0) 100 100 (Fin 90) 2 (Fin 2) (Fin 1)))"
    by (rule beside_event_in_trace)
  have "ev_index ?e =
      (axis_index x86_undef 2 (Fin 2) (vec_x (ev_point ?e)),
       axis_index x86_undef 2 (Fin 2) (vec_y (ev_point ?e)),
       axis_index x86_undef 2 (Fin 2) (vec_z (ev_point ?e)))"
    by (rule th [THEN conjunct1, THEN bspec, OF mem])
  then have idx: "(0, 1, 1) = (axis_index x86_undef 2 (Fin 2) (Fin (- 3 / 2)),
      axis_index x86_undef 2 (Fin 2) (Fin 0), axis_index x86_undef 2 (Fin 2) (Fin 0))"
    by (simp only: event.sel Vec3.sel)
  have sc: "d_mul (d_div (d_add (Fin (- 3 / 2)) (d_div (Fin 2) (Fin 2))) (Fin 2)) (d_of_int 2) =
     Fin (- 1 / 2)"
    using scaled_coordinate_2_beside unfolding scaled_coordinate_def grid_half_size_def .
  have t: "trunc (- (1 / 2)) = 0" by (simp add: trunc_eq_0_iff)
  have a: "axis_index x86_undef 2 (Fin 2) (Fin (- 3 / 2)) = trunc (- 1 / 2)"
    using th [THEN conjunct2, THEN conjunct1, THEN spec, of "Fin (- 3 / 2)"]
    unfolding sc by (simp add: t INT_MIN_def INT_MAX_def)
  have neg: "(- 1 / 2 :: real) < 0 \<and> (- 1 / 2 :: real) \<notin> \<int>"
    using half_not_int by simp
  have b: "trunc (- 1 / 2) = \<lfloor>- 1 / 2 :: real\<rfloor> + 1"
    by (rule th [THEN conjunct2, THEN conjunct2, THEN spec, THEN conjunct2, THEN mp, OF neg])
  from mem idx sc a neg b show ?thesis by blast
qed

text \<open>
  C3 as stated fails: for that coordinate the value the code computes is \<open>-0.5\<close>, as is
  \<open>(-1.5 + 1) / 2 * 2\<close>; its floor is \<open>-1\<close>, and the index is 0.
\<close>

theorem index_not_floor_counterexample:
  "d_mul (d_div (d_add (Fin (- 3 / 2)) (d_div (Fin 2) (Fin 2))) (Fin 2)) (d_of_int 2) =
     Fin (- 1 / 2) \<and>
   axis_index x86_undef 2 (Fin 2) (Fin (- 3 / 2)) = 0 \<and>
   \<lfloor>- 1 / 2 :: real\<rfloor> = - 1 \<and>
   \<lfloor>(- 3 / 2 + 2 / 2) / 2 * 2 :: real\<rfloor> = - 1"
proof -
  have "d_mul (d_div (d_add (Fin (- 3 / 2)) (d_div (Fin 2) (Fin 2))) (Fin 2)) (d_of_int 2) =
     Fin (- 1 / 2)"
    using scaled_coordinate_2_beside unfolding scaled_coordinate_def grid_half_size_def .
  moreover have "axis_index x86_undef 2 (Fin 2) (Fin (- 3 / 2)) = 0"
    by (rule axis_index_2_beside)
  moreover have "\<lfloor>- 1 / 2 :: real\<rfloor> = - 1"
    by (simp add: floor_eq_iff)
  moreover have "\<lfloor>(- 3 / 2 + 2 / 2) / 2 * 2 :: real\<rfloor> = - 1"
    by (simp add: floor_eq_iff)
  ultimately show ?thesis by (intro conjI)
qed

text \<open>
  C10, as amended. For every call and every voxel, let \<open>k\<close> be the number of the 500
  samples whose indices are those of the voxel and pass the bounds check. Then
  \<open>k \<le> 500\<close>, and the voxel's value after the call is its value before with the
  brightness added \<open>k\<close> times, each addition rounded to \<^verbatim>\<open>float\<close>. When the \<open>k\<close> partial
  sums \<open>v + j * brightness\<close> are numbers of the format, that is \<open>v + k * brightness\<close>. When
  \<open>brightness \<ge> 0\<close> and the voxel holds a \<^verbatim>\<open>float\<close>, the value after is not less than the
  value before.
\<close>

theorem accumulation_count:
  "let s' = project_ray_to_voxels undef g p_x p_y cam_pos_x cam_pos_y cam_pos_z
              img_w img_h fov_degrees grid_size grid_world_size brightness;
       k = length (filter
             (\<lambda>i. in_bounds grid_size idx \<and>
                  voxel_index undef grid_size grid_world_size
                    (current_point (Vec3 cam_pos_x cam_pos_y cam_pos_z)
                       (ray_world_dir p_x p_y img_w img_h fov_degrees) grid_world_size i) = idx)
             [0..499])
   in k \<le> 500 \<and>
      voxel_grid s' idx = ((\<lambda>v. f_add v brightness) ^^ k) (g idx) \<and>
      (\<forall>v b. g idx = Fin v \<and> brightness = Fin b \<and>
             (\<forall>j. 1 \<le> j \<and> j \<le> k \<longrightarrow> is_float (v + of_nat j * b)) \<longrightarrow>
             voxel_grid s' idx = Fin (v + of_nat k * b)) \<and>
      (d_ge brightness (Fin 0) \<and> (\<forall>v. g idx = Fin v \<longrightarrow> is_float v) \<longrightarrow>
         \<not> d_gt (g idx) (voxel_grid s' idx))"
proof -
  define k where "k = hits undef (Vec3 cam_pos_x cam_pos_y cam_pos_z)
        (ray_world_dir p_x p_y img_w img_h fov_degrees) grid_size grid_world_size 0 idx"
  have le: "k \<le> 500" unfolding k_def by (rule hits_le)
  have val: "voxel_grid (project_ray_to_voxels undef g p_x p_y cam_pos_x cam_pos_y cam_pos_z
              img_w img_h fov_degrees grid_size grid_world_size brightness) idx =
        ((\<lambda>v. f_add v brightness) ^^ k) (g idx)"
    unfolding k_def by (rule grid_project)
  have exact: "((\<lambda>v. f_add v brightness) ^^ k) (g idx) = Fin (v + of_nat k * b)"
    if "g idx = Fin v \<and> brightness = Fin b \<and>
        (\<forall>j. 1 \<le> j \<and> j \<le> k \<longrightarrow> is_float (v + of_nat j * b))" for v b
    using that f_add_pow_exact [of k v b] by simp
  have mono: "\<not> d_gt (g idx) (((\<lambda>v. f_add v brightness) ^^ k) (g idx))"
    if "d_ge brightness (Fin 0) \<and> (\<forall>v. g idx = Fin v \<longrightarrow> is_float v)"
    using that by (intro not_decrease_pow) simp_all
  show ?thesis
    unfolding Let_def hits_eq_length k_def [symmetric] val
    using le exact mono by blast
qed

text \<open>
  One call adds to a voxel more than once: the ray from the origin down the z axis writes
  voxel \<open>(1, 1, 0)\<close> of the grid of \<open>2\<^sup>3\<close> voxels 249 times. With brightness 1 on a zero
  grid the partial sums are the integers 1 to 249, and the voxel holds 249.
\<close>

theorem accumulation_count_witness:
  "let s' = project_ray_to_voxels x86_undef zero_grid 50 50 (Fin 0) (Fin 0) (Fin 0)
              100 100 (Fin 90) 2 (Fin 2) (Fin 1);
       k = length (filter
             (\<lambda>i. in_bounds 2 (1, 1, 0) \<and>
                  voxel_index x86_undef 2 (Fin 2)
                    (current_point (Vec3 (Fin 0) (Fin 0) (Fin 0))
                       (ray_world_dir 50 50 100 100 (Fin 90)) (Fin 2) i) = (1, 1, 0))
             [0..499])
   in k = 249 \<and> zero_grid (1, 1, 0) = Fin 0 \<and>
      (\<forall>j::nat. 1 \<le> j \<and> j \<le> 249 \<longrightarrow> is_float (0 + of_nat j * 1)) \<and>
      voxel_grid s' (1, 1, 0) = Fin 249 \<and>
      d_ge (Fin 1) (Fin 0) \<and> (\<forall>v. zero_grid (1, 1, 0) = Fin v \<longrightarrow> is_float v) \<and>
      \<not> d_gt (zero_grid (1, 1, 0)) (voxel_grid s' (1, 1, 0))"
proof -
  have k: "length (filter
             (\<lambda>i. in_bounds 2 (1, 1, 0) \<and>
                  voxel_index x86_undef 2 (Fin 2)
                    (current_point (Vec3 (Fin 0) (Fin 0) (Fin 0))
                       (ray_world_dir 50 50 100 100 (Fin 90)) (Fin 2) i) = (1, 1, 0))
             [0..499]) = 249"
    unfolding hits_eq_length ray_world_dir_centre by (rule hits_origin_many)
  have z: "zero_grid (1, 1, 0) = Fin 0" by (simp add: zero_grid_def)
  have fl: "\<forall>j::nat. 1 \<le> j \<and> j \<le> 249 \<longrightarrow> is_float (0 + of_nat j * 1)"
  proof (intro allI impI)
    fix j :: nat assume "1 \<le> j \<and> j \<le> 249"
    then have "\<bar>int j\<bar> < 2 ^ 24" by simp
    from is_float_int [OF this] show "is_float (0 + of_nat j * 1)" by simp
  qed
  have zf: "\<forall>v. zero_grid (1, 1, 0) = Fin v \<longrightarrow> is_float v" by (simp add: zero_grid_def)
  have ge: "d_ge (Fin 1) (Fin 0)" by simp
  note th = accumulation_count [of x86_undef zero_grid 50 50 "Fin 0" "Fin 0" "Fin 0"
      100 100 "Fin 90" 2 "Fin 2" "Fin 1" "(1, 1, 0)", unfolded Let_def k]
  from th have "\<forall>v b. zero_grid (1, 1, 0) = Fin v \<and> Fin 1 = Fin b \<and>
      (\<forall>j. 1 \<le> j \<and> j \<le> 249 \<longrightarrow> is_float (v + of_nat j * b)) \<longrightarrow>
      voxel_grid (project_ray_to_voxels x86_undef zero_grid 50 50 (Fin 0) (Fin 0) (Fin 0)
              100 100 (Fin 90) 2 (Fin 2) (Fin 1)) (1, 1, 0) = Fin (v + of_nat 249 * b)"
    by blast
  from this [THEN spec, THEN spec, of 0 1] z fl
  have v: "voxel_grid (project_ray_to_voxels x86_undef zero_grid 50 50 (Fin 0) (Fin 0) (Fin 0)
              100 100 (Fin 90) 2 (Fin 2) (Fin 1)) (1, 1, 0) = Fin 249"
    by simp
  from th ge zf have m: "\<not> d_gt (zero_grid (1, 1, 0))
      (voxel_grid (project_ray_to_voxels x86_undef zero_grid 50 50 (Fin 0) (Fin 0) (Fin 0)
              100 100 (Fin 90) 2 (Fin 2) (Fin 1)) (1, 1, 0))"
    by blast
  show ?thesis
    unfolding Let_def k using z fl v ge zf m by (intro conjI) simp_all
qed

text \<open>
  C10 as stated fails: the additions are rounded to \<^verbatim>\<open>float\<close>. The ray from the origin
  down the z axis writes voxel \<open>(1, 1, 1)\<close> of the grid of \<open>2\<^sup>3\<close> voxels once. When that
  voxel holds \<open>2\<^sup>2\<^sup>4 = 16777216\<close> and the brightness is 3, the sum 16777219 lies half way
  between the two nearest numbers of the format and rounds to 16777220: the value after
  the call is the value before plus 4, which is no multiple of the brightness.
\<close>

theorem accumulation_not_multiple_counterexample:
  "length (filter
     (\<lambda>i. in_bounds 2 (1, 1, 1) \<and>
          voxel_index x86_undef 2 (Fin 2)
            (current_point (Vec3 (Fin 0) (Fin 0) (Fin 0))
               (ray_world_dir 50 50 100 100 (Fin 90)) (Fin 2) i) = (1, 1, 1))
     [0..499]) = 1 \<and>
   is_float 16777216 \<and> is_float 3 \<and>
   voxel_grid (project_ray_to_voxels x86_undef (\<lambda>idx. Fin 16777216) 50 50 (Fin 0) (Fin 0) (Fin 0)
                 100 100 (Fin 90) 2 (Fin 2) (Fin 3)) (1, 1, 1) = Fin 16777220 \<and>
   (\<forall>k::nat. (16777220::real) \<noteq> 16777216 + of_nat k * 3)"
proof -
  have k: "length (filter
     (\<lambda>i. in_bounds 2 (1, 1, 1) \<and>
          voxel_index x86_undef 2 (Fin 2)
            (current_point (Vec3 (Fin 0) (Fin 0) (Fin 0))
               (ray_world_dir 50 50 100 100 (Fin 90)) (Fin 2) i) = (1, 1, 1))
     [0..499]) = 1"
    unfolding hits_eq_length ray_world_dir_centre by (rule hits_origin_one)
  have a: "is_float 16777216"
  proof -
    have "representable 24 (- 126) (of_int 1 * 2 powi 24)"
      unfolding representable_def by (rule exI [of _ 1], rule exI [of _ 24]) simp
    then show ?thesis unfolding is_float_def by simp
  qed
  have b: "is_float 3" by simp
  have v: "voxel_grid (project_ray_to_voxels x86_undef (\<lambda>idx. Fin 16777216) 50 50 (Fin 0) (Fin 0) (Fin 0)
                 100 100 (Fin 90) 2 (Fin 2) (Fin 3)) (1, 1, 1) = Fin 16777220"
    by (simp add: grid_project ray_world_dir_centre hits_origin_one f_add_def rnd32_16777219)
  have n: "\<forall>k::nat. (16777220::real) \<noteq> 16777216 + of_nat k * 3"
  proof (intro allI notI)
    fix k :: nat
    assume "(16777220::real) = 16777216 + of_nat k * 3"
    then have "real (k * 3) = real 4" by simp
    then have "k * 3 = 4" by (simp only: of_nat_eq_iff)
    then show False by presburger
  qed
  from k a b v n show ?thesis by (intro conjI)
qed

text \<open>
  C6, as amended. Take two calls with the same parameters, the first on a
  zero-initialised grid and the second on the grid the first leaves, and let \<open>k\<close> be the
  number of samples that write a given voxel. After the first call the voxel holds the
  brightness added \<open>k\<close> times to 0, and after the second the brightness added \<open>2 * k\<close>
  times, each addition rounded to \<^verbatim>\<open>float\<close>. When the partial sums \<open>j * brightness\<close>, for
  \<open>j\<close> from 1 to \<open>2 * k\<close>, are numbers of the format, the first value is \<open>k * brightness\<close>
  and the second is exactly its double.
\<close>

theorem two_calls_double:
  "let s1 = project_ray_to_voxels undef zero_grid p_x p_y cam_pos_x cam_pos_y cam_pos_z
              img_w img_h fov_degrees grid_size grid_world_size brightness;
       s2 = project_ray_to_voxels undef (voxel_grid s1) p_x p_y cam_pos_x cam_pos_y cam_pos_z
              img_w img_h fov_degrees grid_size grid_world_size brightness;
       k = length (filter
             (\<lambda>i. in_bounds grid_size idx \<and>
                  voxel_index undef grid_size grid_world_size
                    (current_point (Vec3 cam_pos_x cam_pos_y cam_pos_z)
                       (ray_world_dir p_x p_y img_w img_h fov_degrees) grid_world_size i) = idx)
             [0..499])
   in voxel_grid s1 idx = ((\<lambda>v. f_add v brightness) ^^ k) (Fin 0) \<and>
      voxel_grid s2 idx = ((\<lambda>v. f_add v brightness) ^^ (2 * k)) (Fin 0) \<and>
      (\<forall>b. brightness = Fin b \<and> (\<forall>j. 1 \<le> j \<and> j \<le> 2 * k \<longrightarrow> is_float (of_nat j * b)) \<longrightarrow>
           voxel_grid s1 idx = Fin (of_nat k * b) \<and>
           voxel_grid s2 idx = Fin (2 * (of_nat k * b)))"
proof -
  define k where "k = hits undef (Vec3 cam_pos_x cam_pos_y cam_pos_z)
        (ray_world_dir p_x p_y img_w img_h fov_degrees) grid_size grid_world_size 0 idx"
  let ?f = "\<lambda>v. f_add v brightness"
  have one: "voxel_grid (project_ray_to_voxels undef zero_grid p_x p_y cam_pos_x cam_pos_y cam_pos_z
              img_w img_h fov_degrees grid_size grid_world_size brightness) idx = (?f ^^ k) (Fin 0)"
    unfolding k_def by (simp add: grid_project zero_grid_def del: funpow.simps)
  have "voxel_grid (project_ray_to_voxels undef
          (voxel_grid (project_ray_to_voxels undef zero_grid p_x p_y cam_pos_x cam_pos_y cam_pos_z
              img_w img_h fov_degrees grid_size grid_world_size brightness))
          p_x p_y cam_pos_x cam_pos_y cam_pos_z
          img_w img_h fov_degrees grid_size grid_world_size brightness) idx =
        (?f ^^ k) ((?f ^^ k) (Fin 0))"
    unfolding grid_project [of undef "voxel_grid s" for s] one k_def ..
  also have "\<dots> = (?f ^^ (2 * k)) (Fin 0)"
    by (simp add: funpow_add mult_2 del: funpow.simps)
  finally have two: "voxel_grid (project_ray_to_voxels undef
          (voxel_grid (project_ray_to_voxels undef zero_grid p_x p_y cam_pos_x cam_pos_y cam_pos_z
              img_w img_h fov_degrees grid_size grid_world_size brightness))
          p_x p_y cam_pos_x cam_pos_y cam_pos_z
          img_w img_h fov_degrees grid_size grid_world_size brightness) idx =
        (?f ^^ (2 * k)) (Fin 0)" .
  have exact: "(?f ^^ k) (Fin 0) = Fin (of_nat k * b) \<and>
      (?f ^^ (2 * k)) (Fin 0) = Fin (2 * (of_nat k * b))"
    if h: "brightness = Fin b \<and> (\<forall>j. 1 \<le> j \<and> j \<le> 2 * k \<longrightarrow> is_float (of_nat j * b))" for b
  proof -
    have "((\<lambda>v. f_add v (Fin b)) ^^ k) (Fin 0) = Fin (0 + of_nat k * b)"
      by (rule f_add_pow_exact) (use h in simp)
    moreover have "((\<lambda>v. f_add v (Fin b)) ^^ (2 * k)) (Fin 0) = Fin (0 + of_nat (2 * k) * b)"
      by (rule f_add_pow_exact) (use h in simp)
    ultimately show ?thesis using h by simp
  qed
  show ?thesis
    unfolding Let_def hits_eq_length k_def [symmetric] one two
    using exact by blast
qed

text \<open>
  The ray from the origin down the z axis writes voxel \<open>(1, 1, 0)\<close> of the grid of \<open>2\<^sup>3\<close>
  voxels 249 times. With brightness 1 the partial sums are the integers 1 to 498: the
  voxel holds 249 after one call and 498 after two.
\<close>

theorem two_calls_double_witness:
  "let s1 = project_ray_to_voxels x86_undef zero_grid 50 50 (Fin 0) (Fin 0) (Fin 0)
              100 100 (Fin 90) 2 (Fin 2) (Fin 1);
       s2 = project_ray_to_voxels x86_undef (voxel_grid s1) 50 50 (Fin 0) (Fin 0) (Fin 0)
              100 100 (Fin 90) 2 (Fin 2) (Fin 1);
       k = length (filter
             (\<lambda>i. in_bounds 2 (1, 1, 0) \<and>
                  voxel_index x86_undef 2 (Fin 2)
                    (current_point (Vec3 (Fin 0) (Fin 0) (Fin 0))
                       (ray_world_dir 50 50 100 100 (Fin 90)) (Fin 2) i) = (1, 1, 0))
             [0..499])
   in k = 249 \<and>
      (\<forall>j::nat. 1 \<le> j \<and> j \<le> 2 * 249 \<longrightarrow> is_float (of_nat j * 1)) \<and>
      voxel_grid s1 (1, 1, 0) = Fin 249 \<and> voxel_grid s2 (1, 1, 0) = Fin 498"
proof -
  have k: "length (filter
             (\<lambda>i. in_bounds 2 (1, 1, 0) \<and>
                  voxel_index x86_undef 2 (Fin 2)
                    (current_point (Vec3 (Fin 0) (Fin 0) (Fin 0))
                       (ray_world_dir 50 50 100 100 (Fin 90)) (Fin 2) i) = (1, 1, 0))
             [0..499]) = 249"
    unfolding hits_eq_length ray_world_dir_centre by (rule hits_origin_many)
  have fl: "\<forall>j::nat. 1 \<le> j \<and> j \<le> 2 * 249 \<longrightarrow> is_float (of_nat j * 1)"
  proof (intro allI impI)
    fix j :: nat assume "1 \<le> j \<and> j \<le> 2 * 249"
    then have "\<bar>int j\<bar> < 2 ^ 24" by simp
    from is_float_int [OF this] show "is_float (of_nat j * 1)" by simp
  qed
  note th = two_calls_double [of x86_undef 50 50 "Fin 0" "Fin 0" "Fin 0"
      100 100 "Fin 90" 2 "Fin 2" "Fin 1" "(1, 1, 0)", unfolded Let_def k]
  from th have "\<forall>b. Fin 1 = Fin b \<and> (\<forall>j. 1 \<le> j \<and> j \<le> 2 * 249 \<longrightarrow> is_float (of_nat j * b)) \<longrightarrow>
      voxel_grid (project_ray_to_voxels x86_undef zero_grid 50 50 (Fin 0) (Fin 0) (Fin 0)
              100 100 (Fin 90) 2 (Fin 2) (Fin 1)) (1, 1, 0) = Fin (of_nat 249 * b) \<and>
      voxel_grid (project_ray_to_voxels x86_undef
          (voxel_grid (project_ray_to_voxels x86_undef zero_grid 50 50 (Fin 0) (Fin 0) (Fin 0)
              100 100 (Fin 90) 2 (Fin 2) (Fin 1)))
          50 50 (Fin 0) (Fin 0) (Fin 0) 100 100 (Fin 90) 2 (Fin 2) (Fin 1)) (1, 1, 0) =
        Fin (2 * (of_nat 249 * b))"
    by blast
  from this [THEN spec, of 1] fl
  have v: "voxel_grid (project_ray_to_voxels x86_undef zero_grid 50 50 (Fin 0) (Fin 0) (Fin 0)
              100 100 (Fin 90) 2 (Fin 2) (Fin 1)) (1, 1, 0) = Fin 249 \<and>
      voxel_grid (project_ray_to_voxels x86_undef
          (voxel_grid (project_ray_to_voxels x86_undef zero_grid 50 50 (Fin 0) (Fin 0) (Fin 0)
              100 100 (Fin 90) 2 (Fin 2) (Fin 1)))
          50 50 (Fin 0) (Fin 0) (Fin 0) 100 100 (Fin 90) 2 (Fin 2) (Fin 1)) (1, 1, 0) = Fin 498"
    by simp
  show ?thesis
    unfolding Let_def k using fl v by (intro conjI) simp_all
qed

text \<open>
  C6 as stated fails: the additions are rounded to \<^verbatim>\<open>float\<close>. With brightness 67377 the
  249 sums of the first call are below \<open>2\<^sup>2\<^sup>4\<close> and exact, and the voxel \<open>(1, 1, 0)\<close> holds
  \<open>249 * 67377 = 16776873\<close>. In the second call the sums pass \<open>2\<^sup>2\<^sup>4\<close>, where the format
  holds the even integers only: from the third addition on each sum is odd and is
  rounded. The voxel ends at 33553500, and the double of 16776873 is 33553746.
\<close>

theorem two_calls_not_double_counterexample:
  "is_float 67377 \<and>
   voxel_grid (project_ray_to_voxels x86_undef zero_grid 50 50 (Fin 0) (Fin 0) (Fin 0)
                 100 100 (Fin 90) 2 (Fin 2) (Fin 67377)) (1, 1, 0) = Fin 16776873 \<and>
   voxel_grid (project_ray_to_voxels x86_undef
      (voxel_grid (project_ray_to_voxels x86_undef zero_grid 50 50 (Fin 0) (Fin 0) (Fin 0)
                     100 100 (Fin 90) 2 (Fin 2) (Fin 67377)))
      50 50 (Fin 0) (Fin 0) (Fin 0) 100 100 (Fin 90) 2 (Fin 2) (Fin 67377)) (1, 1, 0) =
     Fin 33553500 \<and>
   f_add (Fin 16776873) (Fin 16776873) = Fin 33553746 \<and>
   (2 * 16776873 :: real) \<noteq> 33553500"
proof -
  let ?f = "\<lambda>x. f_add x (Fin 67377)"
  have a: "is_float 67377" by simp
  have one: "voxel_grid (project_ray_to_voxels x86_undef zero_grid 50 50 (Fin 0) (Fin 0) (Fin 0)
                 100 100 (Fin 90) 2 (Fin 2) (Fin 67377)) (1, 1, 0) = Fin 16776873"
    by (simp add: grid_project ray_world_dir_centre hits_origin_many zero_grid_def
        sum_67377_first del: funpow.simps)
  have "(?f ^^ 249) ((?f ^^ 249) (Fin 0)) = (?f ^^ (249 + 249)) (Fin 0)"
    by (simp only: funpow_add o_apply)
  then have tw: "(?f ^^ 249) (Fin 16776873) = Fin 33553500"
    unfolding sum_67377_first using sum_67377_second by simp
  have two: "voxel_grid (project_ray_to_voxels x86_undef
      (voxel_grid (project_ray_to_voxels x86_undef zero_grid 50 50 (Fin 0) (Fin 0) (Fin 0)
                     100 100 (Fin 90) 2 (Fin 2) (Fin 67377)))
      50 50 (Fin 0) (Fin 0) (Fin 0) 100 100 (Fin 90) 2 (Fin 2) (Fin 67377)) (1, 1, 0) =
     Fin 33553500"
    unfolding grid_project [of x86_undef "voxel_grid s" for s] one
    by (simp add: ray_world_dir_centre hits_origin_many tw del: funpow.simps)
  have d: "f_add (Fin 16776873) (Fin 16776873) = Fin 33553746"
    using f_add_exact [of 16776873 16776873] is_float_even [of 16776873] by simp
  from a one two d show ?thesis by simp
qed




end
